theory Spec2Isabelle
  imports Complex_Main "HOL-Library.Sublist"
begin

section \<open>Values shared by the entity extractor and the traversal engine\<close>

text \<open>
  A value read from the domain configuration (\<^verbatim>\<open>json.load\<close>) or stored as a node or
  relationship property. A dictionary is an association list read with \<open>map_of\<close>.
  JSON numbers with a fraction are not modelled; the one operation that would compute with
  such a number is the \<^verbatim>\<open>min\<close> of \<^verbatim>\<open>_shared_neighbor\<close>, whose operand counts connections.
\<close>

datatype json =
    JNull
  | JBool bool
  | JInt int
  | JStr string
  | JList "json list"
  | JDict "(string \<times> json) list"

type_synonym props = "(string \<times> json) list"

text \<open>Python's truth value of an object (\<^verbatim>\<open>if x\<close>, \<^verbatim>\<open>x or y\<close>, \<^verbatim>\<open>x and y\<close>).\<close>

fun truthy :: "json \<Rightarrow> bool" where
  "truthy JNull = False"
| "truthy (JBool b) = b"
| "truthy (JInt i) = (i \<noteq> 0)"
| "truthy (JStr s) = (s \<noteq> [])"
| "truthy (JList xs) = (xs \<noteq> [])"
| "truthy (JDict d) = (d \<noteq> [])"

text \<open>
  One key of a result row (a Python dict): the key can be missing, be present with the
  value \<^verbatim>\<open>None\<close>, or be present with a value. \<^verbatim>\<open>row.get(k)\<close> does not tell the first
  two apart, \<^verbatim>\<open>row.get(k, d)\<close> and \<^verbatim>\<open>row[k]\<close> do.
\<close>

datatype 'a field = Absent | Null | Val 'a

text \<open>\<^verbatim>\<open>row.get(k)\<close>: \<open>None\<close> stands for Python's \<^verbatim>\<open>None\<close>.\<close>

fun get :: "'a field \<Rightarrow> 'a option" where
  "get Absent = None"
| "get Null = None"
| "get (Val v) = Some v"

text \<open>\<^verbatim>\<open>row.get(k, d)\<close>: the default is used only when the key is missing.\<close>

fun get_default :: "'a field \<Rightarrow> 'a \<Rightarrow> 'a option" where
  "get_default Absent d = Some d"
| "get_default Null d = None"
| "get_default (Val v) d = Some v"

text \<open>\<^verbatim>\<open>row.get(k) or d\<close> for a string or a dict: a missing, null or empty value gives \<open>d\<close>.\<close>

fun get_or :: "'a list field \<Rightarrow> 'a list \<Rightarrow> 'a list" where
  "get_or (Val v) d = (if v \<noteq> [] then v else d)"
| "get_or f d = d"

text \<open>The truth value of \<^verbatim>\<open>row.get(k)\<close> for a string-valued key.\<close>

fun present :: "string field \<Rightarrow> bool" where
  "present (Val v) = (v \<noteq> [])"
| "present f = False"

datatype error =
    KeyError string
  | TypeError
  | AttributeError
  | IndexError
  | ImportError
  | StoreError string

text \<open>
  \<^verbatim>\<open>GraphDBConnector.execute_query\<close>: the store answers a query with rows or raises, and
  the connector is modelled with the list of the queries it was sent, oldest first.
\<close>

record ('q, 'r) connector =
  respond :: "'q \<Rightarrow> error + 'r list"
  issued :: "'q list"

definition execute_query ::
  "('q, 'r) connector \<Rightarrow> 'q \<Rightarrow> (error + 'r list) \<times> ('q, 'r) connector" where
  "execute_query c q = (respond c q, c\<lparr>issued := issued c @ [q]\<rparr>)"

section \<open>The subgraph and its assembly (\<^verbatim>\<open>traversal_engine.py\<close>)\<close>

record node =
  node_id :: string
  label :: "string option"
  name :: json
  properties :: props

record edge =
  edge_source_id :: string
  edge_target_id :: string
  edge_type :: "string option"
  edge_properties :: props

text \<open>A row of the shape of \<^verbatim>\<open>_EDGE_RETURN\<close>.\<close>

record row =
  source_id :: "string field"
  source_label :: "string field"
  source_props :: "props field"
  rel_type :: "string field"
  rel_props :: "props field"
  target_id :: "string field"
  target_label :: "string field"
  target_props :: "props field"

record assembled =
  nodes :: "node list"
  relationships :: "edge list"

record subgraph = assembled +
  strategy :: json
  hop_depth :: json

datatype side = Source | Target

fun side_id :: "side \<Rightarrow> row \<Rightarrow> string field" where
  "side_id Source r = source_id r"
| "side_id Target r = target_id r"

fun side_label :: "side \<Rightarrow> row \<Rightarrow> string field" where
  "side_label Source r = source_label r"
| "side_label Target r = target_label r"

fun side_props :: "side \<Rightarrow> row \<Rightarrow> props field" where
  "side_props Source r = source_props r"
| "side_props Target r = target_props r"

text \<open>\<^verbatim>\<open>props.get("name", "")\<close>.\<close>

definition props_name :: "props \<Rightarrow> json" where
  "props_name ps = (case map_of ps ''name'' of None \<Rightarrow> JStr [] | Some v \<Rightarrow> v)"

text \<open>The node built from one side of a row.\<close>

definition side_node :: "side \<Rightarrow> row \<Rightarrow> string \<Rightarrow> node" where
  "side_node s r nid =
     (let ps = get_or (side_props s r) [] in
      \<lparr>node_id = nid,
       label = Some (get_or (side_label s r) ''Unknown''),
       name = props_name ps,
       properties = ps\<rparr>)"

text \<open>The first loop of \<^verbatim>\<open>_build_subgraph\<close>, over the entry nodes; the state is
  \<^verbatim>\<open>(seen_ids, nodes)\<close>.\<close>

fun seed_entry_nodes :: "node list \<Rightarrow> string set \<times> node list \<Rightarrow> string set \<times> node list" where
  "seed_entry_nodes [] st = st"
| "seed_entry_nodes (en # ens) (seen_ids, ns) =
     (if node_id en \<notin> seen_ids
      then seed_entry_nodes ens (insert (node_id en) seen_ids, ns @ [en])
      else seed_entry_nodes ens (seen_ids, ns))"

text \<open>One pass of the inner loop \<^verbatim>\<open>for side in ("source", "target")\<close>.\<close>

definition add_side :: "row \<Rightarrow> side \<Rightarrow> string set \<times> node list \<Rightarrow> string set \<times> node list" where
  "add_side r s st =
     (case st of (seen_ids, ns) \<Rightarrow>
        (case get (side_id s r) of
           None \<Rightarrow> st
         | Some nid \<Rightarrow>
             if nid \<noteq> [] \<and> nid \<notin> seen_ids
             then (insert nid seen_ids, ns @ [side_node s r nid])
             else st))"

text \<open>
  \<^verbatim>\<open>if row.get("source_id") and row.get("target_id"): rels.append({...})\<close>: the
  relationships a row contributes. Under the guard both keys hold a non-empty string.
\<close>

definition has_both_ids :: "row \<Rightarrow> bool" where
  "has_both_ids r = (present (source_id r) \<and> present (target_id r))"

definition row_edges :: "row \<Rightarrow> edge list" where
  "row_edges r =
     (if has_both_ids r
      then (case (source_id r, target_id r) of
              (Val sid, Val tid) \<Rightarrow>
                [\<lparr>edge_source_id = sid,
                  edge_target_id = tid,
                  edge_type = get_default (rel_type r) ''RELATED_TO'',
                  edge_properties = get_or (rel_props r) []\<rparr>]
            | _ \<Rightarrow> [])
      else [])"

text \<open>The body of \<^verbatim>\<open>for row in rows\<close>; the state is \<^verbatim>\<open>(seen_ids, nodes, rels)\<close>.\<close>

definition add_row ::
  "row \<Rightarrow> string set \<times> node list \<times> edge list \<Rightarrow> string set \<times> node list \<times> edge list" where
  "add_row r st =
     (case st of (seen_ids, ns, rels) \<Rightarrow>
        (case add_side r Target (add_side r Source (seen_ids, ns)) of (seen_ids', ns') \<Rightarrow>
           (seen_ids', ns', rels @ row_edges r)))"

fun add_rows ::
  "row list \<Rightarrow> string set \<times> node list \<times> edge list \<Rightarrow> string set \<times> node list \<times> edge list" where
  "add_rows [] st = st"
| "add_rows (r # rs) st = add_rows rs (add_row r st)"

definition build_subgraph :: "row list \<Rightarrow> node list \<Rightarrow> assembled" where
  "build_subgraph rows entry_nodes =
     (case seed_entry_nodes entry_nodes ({}, []) of (seen_ids, ns) \<Rightarrow>
        (case add_rows rows (seen_ids, ns, []) of (seen_ids', ns', rels) \<Rightarrow>
           \<lparr>nodes = ns', relationships = rels\<rparr>))"

section \<open>The traversal strategies (\<^verbatim>\<open>SmartTraversalEngine\<close>)\<close>

text \<open>
  The Cypher text of every strategy is a fixed template with holes filled from the
  pattern. A query is modelled as the template that was chosen together with the values
  put into its holes, in the order of the source text, and the parameter dict sent along.
\<close>

datatype anchor = Either | OnTarget | OnSource

datatype cypher =
    Targeted anchor "json option" json "json option"
  | Chained "json option" "(json \<times> json option) list"
  | VariableHop json json
  | ShortestPath json
  | SharedNeighbor
  | General json

datatype param = Ids "string list" | Scalar json

record query =
  cypher :: cypher
  params :: "(string \<times> param) list"

type_synonym store = "(query, row) connector"

record engine =
  connector :: store
  intent_patterns :: props
  general_limit :: json

text \<open>\<^verbatim>\<open>pattern.get(k, d)\<close> and \<^verbatim>\<open>pattern[k]\<close>.\<close>

definition pget :: "props \<Rightarrow> string \<Rightarrow> json \<Rightarrow> json" where
  "pget d k dflt = (case map_of d k of None \<Rightarrow> dflt | Some v \<Rightarrow> v)"

definition pitem :: "props \<Rightarrow> string \<Rightarrow> error + json" where
  "pitem d k = (case map_of d k of None \<Rightarrow> Inl (KeyError k) | Some v \<Rightarrow> Inr v)"

text \<open>\<^verbatim>\<open>f"(x:{lbl})" if lbl else "(x)"\<close>: the label hole, when there is one.\<close>

definition label_hole :: "json \<Rightarrow> json option" where
  "label_hole lbl = (if truthy lbl then Some lbl else None)"

text \<open>\<^verbatim>\<open>return self.connector.execute_query(cypher, params), depth\<close>: an error of the
  store propagates.\<close>

definition run_query ::
  "store \<Rightarrow> cypher \<Rightarrow> (string \<times> param) list \<Rightarrow> json \<Rightarrow> (error + row list \<times> json) \<times> store" where
  "run_query c cy ps depth =
     (case execute_query c \<lparr>cypher = cy, params = ps\<rparr> of
        (Inl e, c') \<Rightarrow> (Inl e, c')
      | (Inr rows, c') \<Rightarrow> (Inr (rows, depth), c'))"

definition targeted :: "store \<Rightarrow> string list \<Rightarrow> props \<Rightarrow> (error + row list \<times> json) \<times> store" where
  "targeted c entry_ids pattern =
     (let src_label = pget pattern ''source_label'' (JStr []) in
      case pitem pattern ''relationship'' of
        Inl e \<Rightarrow> (Inl e, c)
      | Inr rel_name \<Rightarrow>
          let tgt_label = pget pattern ''target_label'' (JStr []);
              anchor = pget pattern ''entry_anchor'' (JStr ''source'');
              mode = (if anchor = JStr ''either'' then Either
                      else if anchor = JStr ''target'' then OnTarget
                      else OnSource)
          in run_query c (Targeted mode (label_hole src_label) rel_name (label_hole tgt_label))
               [(''ids'', Ids entry_ids)] (JInt 1))"

text \<open>\<^verbatim>\<open>len(hops)\<close> followed by \<^verbatim>\<open>enumerate(hops)\<close>: the elements of a sized value, or the
  \<^verbatim>\<open>TypeError\<close> of \<^verbatim>\<open>len\<close>. Iterating a dict gives its keys, a string its characters.\<close>

fun elements :: "json \<Rightarrow> error + json list" where
  "elements (JList xs) = Inr xs"
| "elements (JDict d) = Inr (map (\<lambda>kv. JStr (fst kv)) d)"
| "elements (JStr s) = Inr (map (\<lambda>ch. JStr [ch]) s)"
| "elements v = Inl TypeError"

text \<open>The loop body of \<^verbatim>\<open>_chained\<close>: \<^verbatim>\<open>hop["relationship"]\<close> and
  \<^verbatim>\<open>hop.get("target_label", "")\<close>; a hop that is not a dict cannot be subscripted by a
  string.\<close>

fun hop_tokens :: "json \<Rightarrow> error + json \<times> json option" where
  "hop_tokens (JDict hop) =
     (case pitem hop ''relationship'' of
        Inl e \<Rightarrow> Inl e
      | Inr rel \<Rightarrow> Inr (rel, label_hole (pget hop ''target_label'' (JStr []))))"
| "hop_tokens v = Inl TypeError"

fun path_tokens :: "json list \<Rightarrow> error + (json \<times> json option) list" where
  "path_tokens [] = Inr []"
| "path_tokens (hop # hops) =
     (case hop_tokens hop of
        Inl e \<Rightarrow> Inl e
      | Inr t \<Rightarrow> (case path_tokens hops of Inl e \<Rightarrow> Inl e | Inr ts \<Rightarrow> Inr (t # ts)))"

definition chained :: "store \<Rightarrow> string list \<Rightarrow> props \<Rightarrow> (error + row list \<times> json) \<times> store" where
  "chained c entry_ids pattern =
     (case pitem pattern ''hops'' of
        Inl e \<Rightarrow> (Inl e, c)
      | Inr hops \<Rightarrow>
          let entry_label = pget pattern ''entry_label'' (JStr []) in
          (case elements hops of
             Inl e \<Rightarrow> (Inl e, c)
           | Inr hs \<Rightarrow>
               let n_hops = length hs in
               (case path_tokens hs of
                  Inl e \<Rightarrow> (Inl e, c)
                | Inr toks \<Rightarrow>
                    run_query c (Chained (label_hole entry_label) toks)
                      [(''ids'', Ids entry_ids)] (JInt (int n_hops)))))"

definition variable_hop :: "store \<Rightarrow> string list \<Rightarrow> props \<Rightarrow> (error + row list \<times> json) \<times> store" where
  "variable_hop c entry_ids pattern =
     (let min_h = pget pattern ''min_hops'' (JInt 1);
          max_h = pget pattern ''max_hops'' (JInt 2)
      in run_query c (VariableHop min_h max_h) [(''ids'', Ids entry_ids)] max_h)"

text \<open>
  In the two-or-more branch the source also computes a local \<^verbatim>\<open>hop_depth\<close> from
  \<^verbatim>\<open>r.get("path_lens", [])\<close>; no row has that key, the value is never used, and the
  function returns \<^verbatim>\<open>max_h\<close>.
\<close>

definition shortest_path :: "store \<Rightarrow> string list \<Rightarrow> props \<Rightarrow> (error + row list \<times> json) \<times> store" where
  "shortest_path c entry_ids pattern =
     (let max_h = pget pattern ''max_hops'' (JInt 6) in
      if length entry_ids < 2
      then variable_hop c entry_ids [(''min_hops'', JInt 1), (''max_hops'', max_h)]
      else run_query c (ShortestPath max_h) [(''ids'', Ids entry_ids)] max_h)"

text \<open>Python's \<^verbatim>\<open>min(a, n)\<close> for a configuration value \<open>a\<close> and an int \<open>n\<close>: \<open>n\<close> when
  \<^verbatim>\<open>n < a\<close>, else \<open>a\<close>; a bool compares as 0 or 1; anything else cannot be compared
  with an int.\<close>

fun py_min :: "json \<Rightarrow> int \<Rightarrow> error + json" where
  "py_min (JInt a) n = Inr (if n < a then JInt n else JInt a)"
| "py_min (JBool b) n = Inr (if n < (if b then 1 else 0) then JInt n else JBool b)"
| "py_min v n = Inl TypeError"

definition shared_neighbor :: "store \<Rightarrow> string list \<Rightarrow> props \<Rightarrow> (error + row list \<times> json) \<times> store" where
  "shared_neighbor c entry_ids pattern =
     (case py_min (pget pattern ''min_connections'' (JInt 2)) (int (length entry_ids)) of
        Inl e \<Rightarrow> (Inl e, c)
      | Inr min_conn \<Rightarrow>
          run_query c SharedNeighbor
            [(''ids'', Ids entry_ids), (''min_conn'', Scalar min_conn)] (JInt 1))"

definition general :: "engine \<Rightarrow> string list \<Rightarrow> props \<Rightarrow> (error + row list \<times> json) \<times> store" where
  "general e entry_ids pattern =
     run_query (connector e) (General (general_limit e)) [(''ids'', Ids entry_ids)] (JInt 1)"

text \<open>\<^verbatim>\<open>dispatch.get(strategy, self._general)\<close>: a list or a dict is not hashable.\<close>

definition dispatch ::
  "engine \<Rightarrow> json \<Rightarrow> error + (string list \<Rightarrow> props \<Rightarrow> (error + row list \<times> json) \<times> store)" where
  "dispatch e strat =
     (case strat of
        JList xs \<Rightarrow> Inl TypeError
      | JDict d \<Rightarrow> Inl TypeError
      | _ \<Rightarrow>
          Inr (if strat = JStr ''targeted'' then targeted (connector e)
               else if strat = JStr ''chained'' then chained (connector e)
               else if strat = JStr ''variable_hop'' then variable_hop (connector e)
               else if strat = JStr ''shortest_path'' then shortest_path (connector e)
               else if strat = JStr ''shared_neighbor'' then shared_neighbor (connector e)
               else general e))"

text \<open>\<^verbatim>\<open>pattern.get("strategy", "targeted") if pattern else "general"\<close>, where
  \<^verbatim>\<open>pattern\<close> is \<^verbatim>\<open>self._intent_patterns.get(intent)\<close>. A true value that is not a dict
  has no \<^verbatim>\<open>get\<close>.\<close>

definition strategy_of :: "json option \<Rightarrow> error + json" where
  "strategy_of pattern =
     (case pattern of
        None \<Rightarrow> Inr (JStr ''general'')
      | Some p \<Rightarrow>
          if truthy p
          then (case p of JDict d \<Rightarrow> Inr (pget d ''strategy'' (JStr ''targeted''))
                | _ \<Rightarrow> Inl AttributeError)
          else Inr (JStr ''general''))"

text \<open>\<^verbatim>\<open>pattern or {}\<close>, once \<^verbatim>\<open>strategy_of\<close> has passed.\<close>

definition pattern_or_empty :: "json option \<Rightarrow> props" where
  "pattern_or_empty pattern = (case pattern of Some (JDict d) \<Rightarrow> d | _ \<Rightarrow> [])"

definition empty_subgraph :: subgraph where
  "empty_subgraph =
     \<lparr>nodes = [], relationships = [], strategy = JStr ''none'', hop_depth = JInt 0\<rparr>"

definition traverse :: "engine \<Rightarrow> node list \<Rightarrow> string \<Rightarrow> (error + subgraph) \<times> engine" where
  "traverse e entry_nodes intent =
     (if entry_nodes = [] then (Inr empty_subgraph, e)
      else
        let entry_ids = map node_id entry_nodes;
            pattern = map_of (intent_patterns e) intent
        in case strategy_of pattern of
             Inl err \<Rightarrow> (Inl err, e)
           | Inr strat \<Rightarrow>
               (case dispatch e strat of
                  Inl err \<Rightarrow> (Inl err, e)
                | Inr fn \<Rightarrow>
                    (case fn entry_ids (pattern_or_empty pattern) of
                       (Inl err, c') \<Rightarrow> (Inl err, e\<lparr>connector := c'\<rparr>)
                     | (Inr (rows, depth), c') \<Rightarrow>
                         let sg = build_subgraph rows entry_nodes in
                         (Inr \<lparr>nodes = nodes sg, relationships = relationships sg,
                               strategy = strat, hop_depth = depth\<rparr>,
                          e\<lparr>connector := c'\<rparr>))))"

section \<open>The entity extractor (\<^verbatim>\<open>entity_extractor.py\<close>)\<close>

subsection \<open>Characters\<close>

text \<open>
  A query is a Python \<^verbatim>\<open>str\<close>; its characters are modelled by \<^typ>\<open>char\<close>, the code points
  below 256. A code point above that range is either white space or is replaced by a space
  in the first step of \<^verbatim>\<open>_extract_keywords\<close>, so it separates tokens like a space does.

  \<open>is_space\<close> is \<^verbatim>\<open>str.isspace\<close>, which is also what \<^verbatim>\<open>\s\<close> matches and where
  \<^verbatim>\<open>str.split()\<close> and \<^verbatim>\<open>str.strip()\<close> cut.
\<close>

definition is_space :: "char \<Rightarrow> bool" where
  "is_space c =
     (let n = (of_char c :: nat)
      in (9 \<le> n \<and> n \<le> 13) \<or> (28 \<le> n \<and> n \<le> 32) \<or> n = 133 \<or> n = 160)"

text \<open>The character class \<^verbatim>\<open>[a-zA-Z0-9]\<close>.\<close>

definition ascii_alnum :: "char \<Rightarrow> bool" where
  "ascii_alnum c =
     (let n = (of_char c :: nat)
      in (48 \<le> n \<and> n \<le> 57) \<or> (65 \<le> n \<and> n \<le> 90) \<or> (97 \<le> n \<and> n \<le> 122))"

text \<open>
  \<^verbatim>\<open>str.lower\<close> on one character. Below 256 the characters it changes are \<^verbatim>\<open>A\<close> to
  \<^verbatim>\<open>Z\<close> and the capital letters U+00C0 to U+00DE without the multiplication sign U+00D7;
  each moves up by 32.
\<close>

definition upper_chars :: string where
  "upper_chars =
     ''ABCDEFGHIJKLMNOPQRSTUVWXYZ'' @
     [CHR 0xC0, CHR 0xC1, CHR 0xC2, CHR 0xC3, CHR 0xC4, CHR 0xC5, CHR 0xC6, CHR 0xC7,
      CHR 0xC8, CHR 0xC9, CHR 0xCA, CHR 0xCB, CHR 0xCC, CHR 0xCD, CHR 0xCE, CHR 0xCF,
      CHR 0xD0, CHR 0xD1, CHR 0xD2, CHR 0xD3, CHR 0xD4, CHR 0xD5, CHR 0xD6, CHR 0xD8,
      CHR 0xD9, CHR 0xDA, CHR 0xDB, CHR 0xDC, CHR 0xDD, CHR 0xDE]"

definition lower_chars :: string where
  "lower_chars =
     ''abcdefghijklmnopqrstuvwxyz'' @
     [CHR 0xE0, CHR 0xE1, CHR 0xE2, CHR 0xE3, CHR 0xE4, CHR 0xE5, CHR 0xE6, CHR 0xE7,
      CHR 0xE8, CHR 0xE9, CHR 0xEA, CHR 0xEB, CHR 0xEC, CHR 0xED, CHR 0xEE, CHR 0xEF,
      CHR 0xF0, CHR 0xF1, CHR 0xF2, CHR 0xF3, CHR 0xF4, CHR 0xF5, CHR 0xF6, CHR 0xF8,
      CHR 0xF9, CHR 0xFA, CHR 0xFB, CHR 0xFC, CHR 0xFD, CHR 0xFE]"

definition lower_char :: "char \<Rightarrow> char" where
  "lower_char c =
     (case map_of (zip upper_chars lower_chars) c of
        None \<Rightarrow> c
      | Some l \<Rightarrow> l)"

definition lower :: "string \<Rightarrow> string" where
  "lower s = map lower_char s"

text \<open>\<^verbatim>\<open>re.sub(r"[^a-zA-Z0-9\s\-]", " ", query)\<close>.\<close>

definition clean :: "string \<Rightarrow> string" where
  "clean query =
     map (\<lambda>c. if ascii_alnum c \<or> is_space c \<or> c = CHR ''-'' then c else CHR '' '') query"

text \<open>\<^verbatim>\<open>str.split()\<close>: the maximal runs of characters that are not white space; the first
  argument is the run read so far.\<close>

fun split_run :: "string \<Rightarrow> string \<Rightarrow> string list" where
  "split_run cur [] = (if cur = [] then [] else [cur])"
| "split_run cur (c # cs) =
     (if is_space c
      then (if cur = [] then split_run [] cs else cur # split_run [] cs)
      else split_run (cur @ [c]) cs)"

definition split :: "string \<Rightarrow> string list" where
  "split s = split_run [] s"

text \<open>\<^verbatim>\<open>str.strip()\<close>.\<close>

definition strip :: "string \<Rightarrow> string" where
  "strip s = rev (dropWhile is_space (rev (dropWhile is_space s)))"

text \<open>\<^verbatim>\<open>sep.join(parts)\<close>.\<close>

fun join :: "string \<Rightarrow> string list \<Rightarrow> string" where
  "join sep [] = []"
| "join sep [p] = p"
| "join sep (p # q # ps) = p @ sep @ join sep (q # ps)"

subsection \<open>Keyword extraction\<close>

definition DEFAULT_STOP_WORDS :: "string list" where
  "DEFAULT_STOP_WORDS =
     [''a'', ''an'', ''the'', ''is'', ''are'', ''was'', ''were'', ''be'', ''been'', ''being'',
      ''have'', ''has'', ''had'', ''do'', ''does'', ''did'', ''will'', ''would'', ''could'',
      ''should'', ''may'', ''might'', ''shall'', ''can'', ''need'', ''dare'', ''ought'',
      ''used'', ''to'', ''of'', ''in'', ''on'', ''at'', ''by'', ''for'', ''with'', ''about'',
      ''against'', ''between'', ''into'', ''through'', ''during'', ''before'', ''after'',
      ''above'', ''below'', ''from'', ''up'', ''down'', ''out'', ''off'', ''over'', ''under'',
      ''again'', ''further'', ''then'', ''once'', ''and'', ''but'', ''or'', ''nor'', ''so'',
      ''yet'', ''both'', ''either'', ''neither'', ''not'', ''only'', ''own'', ''same'',
      ''than'', ''too'', ''very'', ''just'', ''because'', ''as'', ''until'', ''while'',
      ''if'', ''when'', ''where'', ''how'', ''what'', ''which'', ''who'', ''whom'', ''that'',
      ''this'', ''these'', ''those'', ''i'', ''me'', ''my'', ''myself'', ''we'', ''our'',
      ''you'', ''your'', ''he'', ''him'', ''his'', ''she'', ''her'', ''it'', ''its'', ''they'',
      ''them'', ''their'', ''tell'', ''give'', ''show'', ''find'', ''get'', ''let'',
      ''make'', ''know'', ''see'', ''take'', ''come'', ''go'', ''say'', ''ask'']"

text \<open>\<^verbatim>\<open>tokens = cleaned.lower().split()\<close>.\<close>

definition tokenize :: "string \<Rightarrow> string list" where
  "tokenize query = split (lower (clean query))"

text \<open>The tokens that the n-gram loops run over: the tokens that are no stop-words, or all
  tokens when none is left.\<close>

definition content_tokens :: "string set \<Rightarrow> string \<Rightarrow> string list" where
  "content_tokens stop_words query =
     (let tokens = tokenize query;
          content = filter (\<lambda>t. t \<notin> stop_words) tokens
      in if content = [] then tokens else content)"

text \<open>The body of the inner loop; the state is \<^verbatim>\<open>(candidates, seen)\<close>.\<close>

definition add_phrase :: "string \<Rightarrow> string list \<times> string set \<Rightarrow> string list \<times> string set" where
  "add_phrase phrase st =
     (case st of (candidates, seen) \<Rightarrow>
        if phrase \<notin> seen then (candidates @ [phrase], insert phrase seen) else st)"

text \<open>
  \<^verbatim>\<open>for i in range(len(content_tokens) - n + 1)\<close>: an empty range when the bound is not
  positive, which the truncating subtraction of \<^typ>\<open>nat\<close> gives as well.
\<close>

definition ngram_loop ::
  "string list \<Rightarrow> nat \<Rightarrow> string list \<times> string set \<Rightarrow> string list \<times> string set" where
  "ngram_loop toks n st =
     fold (\<lambda>i. add_phrase (join '' '' (take n (drop i toks)))) [0 ..< length toks + 1 - n] st"

definition extract_keywords :: "string set \<Rightarrow> string \<Rightarrow> string list" where
  "extract_keywords stop_words query =
     fst (fold (ngram_loop (content_tokens stop_words query)) [3, 2, 1] ([], {}))"

subsection \<open>Graph lookup\<close>

text \<open>
  A row of the three lookup queries. The key \<^verbatim>\<open>id\<close> is read with \<^verbatim>\<open>row["id"]\<close> and is
  returned by each of them; the other keys are read with \<^verbatim>\<open>get\<close>.
\<close>

record lookup_row =
  row_id :: string
  row_label :: "string field"
  row_properties :: "props field"
  candidate_name :: "string field"

text \<open>The Cypher templates of \<^verbatim>\<open>_exact_match\<close>, \<^verbatim>\<open>_partial_match\<close> and \<^verbatim>\<open>_fuzzy_match\<close>
  with the values of their holes: the label filter, and the searched properties or the
  primary property.\<close>

datatype lookup_cypher =
    ExactMatch string "string list"
  | PartialMatch string "string list"
  | FuzzyCandidates string string

datatype lookup_param = Keyword string | Length int

record lookup_query =
  lookup_cypher :: lookup_cypher
  lookup_params :: "(string \<times> lookup_param) list"

type_synonym lookup_store = "(lookup_query, lookup_row) connector"

text \<open>
  The extractor after \<^verbatim>\<open>__init__\<close>. \<open>levenshtein\<close> is what \<^verbatim>\<open>import Levenshtein\<close> gives:
  \<open>None\<close> when the package is missing, else its \<^verbatim>\<open>ratio\<close> function. A score is a Python
  float; it is only ever compared, and is modelled by the real number it stands for.
\<close>

record extractor =
  lookup_connector :: lookup_store
  search_properties :: "string list"
  node_labels :: "string list option"
  fuzzy_threshold :: real
  stop_words :: "string set"
  fuzzy_available :: bool
  levenshtein :: "(string \<Rightarrow> string \<Rightarrow> real) option"

text \<open>
  \<^verbatim>\<open>__init__\<close>; an argument left out is \<open>None\<close>.
\<close>

definition new_extractor ::
  "lookup_store \<Rightarrow> string list option \<Rightarrow> string list option \<Rightarrow> string list option \<Rightarrow>
   real option \<Rightarrow> (string \<Rightarrow> string \<Rightarrow> real) option \<Rightarrow> extractor" where
  "new_extractor c props labels extra_stop_words threshold lev =
     \<lparr>lookup_connector = c,
      search_properties = (case props of None \<Rightarrow> [''name''] | Some ps \<Rightarrow> if ps = [] then [''name''] else ps),
      node_labels = labels,
      fuzzy_threshold = (case threshold of None \<Rightarrow> 85 / 100 | Some t \<Rightarrow> t),
      stop_words = set DEFAULT_STOP_WORDS \<union>
                   set (map lower (case extra_stop_words of None \<Rightarrow> [] | Some ws \<Rightarrow> ws)),
      fuzzy_available = (lev \<noteq> None),
      levenshtein = lev\<rparr>"

definition build_label_filter :: "extractor \<Rightarrow> string" where
  "build_label_filter x =
     (case node_labels x of
        None \<Rightarrow> []
      | Some labels \<Rightarrow> if labels = [] then [] else '':'' @ join ''|'' labels)"

definition row_to_node :: "lookup_row \<Rightarrow> node" where
  "row_to_node r =
     (let ps = get_or (row_properties r) [] in
      \<lparr>node_id = row_id r,
       label = get_default (row_label r) ''Unknown'',
       name = props_name ps,
       properties = ps\<rparr>)"

definition lookup ::
  "extractor \<Rightarrow> lookup_cypher \<Rightarrow> (string \<times> lookup_param) list \<Rightarrow>
   (error + lookup_row list) \<times> extractor" where
  "lookup x cy ps =
     (case execute_query (lookup_connector x) \<lparr>lookup_cypher = cy, lookup_params = ps\<rparr> of
        (res, c') \<Rightarrow> (res, x\<lparr>lookup_connector := c'\<rparr>))"

definition exact_match :: "extractor \<Rightarrow> string \<Rightarrow> (error + node list) \<times> extractor" where
  "exact_match x keyword =
     (case lookup x (ExactMatch (build_label_filter x) (search_properties x))
             [(''keyword'', Keyword (lower keyword))] of
        (Inl e, x') \<Rightarrow> (Inl e, x')
      | (Inr rows, x') \<Rightarrow> (Inr (map row_to_node rows), x'))"

definition partial_match :: "extractor \<Rightarrow> string \<Rightarrow> (error + node list) \<times> extractor" where
  "partial_match x keyword =
     (case lookup x (PartialMatch (build_label_filter x) (search_properties x))
             [(''keyword'', Keyword (lower keyword))] of
        (Inl e, x') \<Rightarrow> (Inl e, x')
      | (Inr rows, x') \<Rightarrow> (Inr (map row_to_node rows), x'))"

text \<open>The scoring loop of \<^verbatim>\<open>_fuzzy_match\<close>: the rows with a non-empty candidate name whose
  ratio reaches the threshold, each with its ratio, in row order.\<close>

fun score_rows ::
  "(string \<Rightarrow> string \<Rightarrow> real) \<Rightarrow> real \<Rightarrow> string \<Rightarrow> lookup_row list \<Rightarrow> (real \<times> lookup_row) list" where
  "score_rows ratio threshold kw_lower [] = []"
| "score_rows ratio threshold kw_lower (r # rows) =
     (case get_default (candidate_name r) [] of
        None \<Rightarrow> score_rows ratio threshold kw_lower rows
      | Some cand \<Rightarrow>
          if cand = [] then score_rows ratio threshold kw_lower rows
          else if ratio kw_lower cand \<ge> threshold
               then (ratio kw_lower cand, r) # score_rows ratio threshold kw_lower rows
               else score_rows ratio threshold kw_lower rows)"

text \<open>\<^verbatim>\<open>scored.sort(key=lambda x: x[0], reverse=True)\<close>: a stable sort, descending; rows
  with equal ratios keep their order.\<close>

definition sort_descending :: "(real \<times> lookup_row) list \<Rightarrow> (real \<times> lookup_row) list" where
  "sort_descending scored = rev (sort_key fst (rev scored))"

definition fuzzy_match :: "extractor \<Rightarrow> string \<Rightarrow> (error + node list) \<times> extractor" where
  "fuzzy_match x keyword =
     (case levenshtein x of
        None \<Rightarrow> (Inl ImportError, x)
      | Some ratio \<Rightarrow>
          (case search_properties x of
             [] \<Rightarrow> (Inl IndexError, x)
           | primary_prop # others \<Rightarrow>
               let label_filter = build_label_filter x;
                   kw_len = int (length keyword);
                   min_len = max 1 (kw_len - kw_len div 2);
                   max_len = kw_len + kw_len div 2
               in (case lookup x (FuzzyCandidates label_filter primary_prop)
                          [(''min_len'', Length min_len), (''max_len'', Length max_len)] of
                     (Inl e, x') \<Rightarrow> (Inl e, x')
                   | (Inr rows, x') \<Rightarrow>
                       let scored = score_rows ratio (fuzzy_threshold x) (lower keyword) rows
                       in (Inr (map (\<lambda>sr. row_to_node (snd sr)) (take 5 (sort_descending scored))),
                           x'))))"

definition find_in_graph :: "extractor \<Rightarrow> string \<Rightarrow> (error + node list) \<times> extractor" where
  "find_in_graph x keyword =
     (case exact_match x keyword of
        (Inl e, x1) \<Rightarrow> (Inl e, x1)
      | (Inr exact, x1) \<Rightarrow>
          if exact \<noteq> [] then (Inr exact, x1)
          else
            (case partial_match x1 keyword of
               (Inl e, x2) \<Rightarrow> (Inl e, x2)
             | (Inr partial, x2) \<Rightarrow>
                 if partial \<noteq> [] then (Inr partial, x2)
                 else if fuzzy_available x2 \<and> length keyword > 3
                 then (case fuzzy_match x2 keyword of
                         (Inl e, x3) \<Rightarrow> (Inl e, x3)
                       | (Inr fuzzy, x3) \<Rightarrow> (Inr fuzzy, x3))
                 else (Inr [], x2)))"

text \<open>The loop of \<^verbatim>\<open>extract_entry_nodes\<close> over the keywords; the state is
  \<^verbatim>\<open>(seen_ids, entry_nodes)\<close> and the extractor with its connector. Its inner loop
  over the nodes found is the loop that seeds the subgraph: a node is appended when its id
  was not seen.\<close>

fun collect_entry_nodes ::
  "string list \<Rightarrow> string set \<times> node list \<Rightarrow> extractor \<Rightarrow> (error + node list) \<times> extractor" where
  "collect_entry_nodes [] st x = (Inr (snd st), x)"
| "collect_entry_nodes (keyword # keywords) st x =
     (case find_in_graph x keyword of
        (Inl e, x') \<Rightarrow> (Inl e, x')
      | (Inr found, x') \<Rightarrow> collect_entry_nodes keywords (seed_entry_nodes found st) x')"

definition extract_entry_nodes :: "extractor \<Rightarrow> string \<Rightarrow> (error + node list) \<times> extractor" where
  "extract_entry_nodes x query =
     (if query = [] \<or> strip query = [] then (Inr [], x)
      else collect_entry_nodes (extract_keywords (stop_words x) query) ({}, []) x)"

section \<open>Notions used to state the properties\<close>

text \<open>
  The entry nodes deduplicated by id, in the order given: keep a node, drop every later
  node with the same id, go on with the rest.
\<close>

fun first_by_id :: "node list \<Rightarrow> node list" where
  "first_by_id [] = []"
| "first_by_id (n # ns) = n # first_by_id (filter (\<lambda>m. node_id m \<noteq> node_id n) ns)"

text \<open>The loop invariant of the assembly: \<^verbatim>\<open>seen_ids\<close> holds exactly the ids of
  \<^verbatim>\<open>nodes\<close>, each once.\<close>

definition ids_inv :: "string set \<Rightarrow> node list \<Rightarrow> bool" where
  "ids_inv seen ns = (seen = set (map node_id ns) \<and> distinct (map node_id ns))"

text \<open>An edge is the one the assembler builds from a row.\<close>

definition describes :: "row \<Rightarrow> edge \<Rightarrow> bool" where
  "describes r ed =
     (source_id r = Val (edge_source_id ed) \<and>
      target_id r = Val (edge_target_id ed) \<and>
      edge_type ed = get_default (rel_type r) ''RELATED_TO'' \<and>
      edge_properties ed = get_or (rel_props r) [])"

definition is_shortest_path_query :: "query \<Rightarrow> bool" where
  "is_shortest_path_query q = (case cypher q of ShortestPath h \<Rightarrow> True | _ \<Rightarrow> False)"

text \<open>The integer a configuration value compares as, when it is an int or a bool.\<close>

fun json_num :: "json \<Rightarrow> int option" where
  "json_num (JInt i) = Some i"
| "json_num (JBool b) = Some (if b then 1 else 0)"
| "json_num v = None"

text \<open>A list without its repetitions, each element where it is first seen.\<close>

fun first_seen :: "'a list \<Rightarrow> 'a list" where
  "first_seen [] = []"
| "first_seen (x # xs) = x # first_seen (filter (\<lambda>y. y \<noteq> x) xs)"

text \<open>The contiguous n-grams of a token list, from left to right, each joined by single
  spaces.\<close>

definition ngrams :: "nat \<Rightarrow> string list \<Rightarrow> string list" where
  "ngrams n toks = map (\<lambda>i. join '' '' (take n (drop i toks))) [0 ..< length toks + 1 - n]"

text \<open>The position of the first occurrence (\<^verbatim>\<open>list.index\<close>).\<close>

definition index_of :: "'a list \<Rightarrow> 'a \<Rightarrow> nat" where
  "index_of xs x = length (takeWhile (\<lambda>y. y \<noteq> x) xs)"

definition spaces :: "string \<Rightarrow> nat" where
  "spaces s = length (filter (\<lambda>c. c = CHR '' '') s)"

subsection \<open>Concrete inputs\<close>

definition demo_node :: "string \<Rightarrow> string \<Rightarrow> node" where
  "demo_node i n =
     \<lparr>node_id = i, label = Some ''Drug'', name = JStr n, properties = [(''name'', JStr n)]\<rparr>"

text \<open>A store that answers every query with zero rows.\<close>

definition silent_store :: store where
  "silent_store = \<lparr>respond = (\<lambda>q. Inr []), issued = []\<rparr>"

definition demo_engine :: "props \<Rightarrow> store \<Rightarrow> engine" where
  "demo_engine reg c = \<lparr>connector = c, intent_patterns = reg, general_limit = JInt 30\<rparr>"

definition causes_row :: row where
  "causes_row =
     \<lparr>source_id = Val ''id:1'', source_label = Val ''Drug'',
      source_props = Val [(''name'', JStr ''Aspirin'')],
      rel_type = Val ''CAUSES'', rel_props = Val [],
      target_id = Val ''id:10'', target_label = Val ''SideEffect'',
      target_props = Val [(''name'', JStr ''Nausea'')]\<rparr>"

definition sourceless_row :: row where
  "sourceless_row = causes_row\<lparr>source_id := Absent\<rparr>"

definition demo_registry :: props where
  "demo_registry =
     [(''indirect_symptoms'', JDict [(''strategy'', JStr ''chained''), (''entry_label'', JStr ''Drug'')]),
      (''neighborhood'', JDict [(''strategy'', JStr ''variable_hop'')]),
      (''connection'', JDict [(''strategy'', JStr ''shortest_path'')]),
      (''shared_effects'', JDict [(''strategy'', JStr ''shared_neighbor''), (''min_connections'', JInt 2)])]"

subsection \<open>Notions for the fuzzy stage\<close>

definition is_fuzzy_query :: "lookup_query \<Rightarrow> bool" where
  "is_fuzzy_query q = (case lookup_cypher q of FuzzyCandidates lf pp \<Rightarrow> True | _ \<Rightarrow> False)"

text \<open>The queries sent between two states of the extractor.\<close>

definition queries_since :: "extractor \<Rightarrow> extractor \<Rightarrow> lookup_query list" where
  "queries_since x x' =
     drop (length (issued (lookup_connector x))) (issued (lookup_connector x'))"

text \<open>The similarity of a row's candidate name to the keyword, and whether the row has a
  name and reaches the threshold.\<close>

definition similarity :: "(string \<Rightarrow> string \<Rightarrow> real) \<Rightarrow> string \<Rightarrow> lookup_row \<Rightarrow> real" where
  "similarity ratio kw r = ratio kw (get_or (candidate_name r) [])"

definition qualifies :: "(string \<Rightarrow> string \<Rightarrow> real) \<Rightarrow> real \<Rightarrow> string \<Rightarrow> lookup_row \<Rightarrow> bool" where
  "qualifies ratio threshold kw r =
     (get_or (candidate_name r) [] \<noteq> [] \<and> threshold \<le> similarity ratio kw r)"

text \<open>The rows whose nodes \<^verbatim>\<open>_fuzzy_match\<close> returns: \<^verbatim>\<open>scored[:5]\<close> after the sort.\<close>

definition top_rows ::
  "(string \<Rightarrow> string \<Rightarrow> real) \<Rightarrow> real \<Rightarrow> string \<Rightarrow> lookup_row list \<Rightarrow> lookup_row list" where
  "top_rows ratio threshold kw rows =
     map snd (take 5 (sort_descending (score_rows ratio threshold kw rows)))"

text \<open>The query of \<^verbatim>\<open>_fuzzy_match\<close> for a keyword.\<close>

definition fuzzy_query :: "extractor \<Rightarrow> string \<Rightarrow> string \<Rightarrow> lookup_query" where
  "fuzzy_query x primary_prop keyword =
     \<lparr>lookup_cypher = FuzzyCandidates (build_label_filter x) primary_prop,
      lookup_params =
        [(''min_len'', Length (max 1 (int (length keyword) - int (length keyword) div 2))),
         (''max_len'', Length (int (length keyword) + int (length keyword) div 2))]\<rparr>"

subsection \<open>A concrete graph for the fuzzy stage\<close>

definition aspirin_row :: lookup_row where
  "aspirin_row =
     \<lparr>row_id = ''4:abc:10'', row_label = Val ''Drug'',
      row_properties = Val [(''name'', JStr ''Aspirin'')], candidate_name = Val ''aspirin''\<rparr>"

definition insulin_row :: lookup_row where
  "insulin_row =
     \<lparr>row_id = ''4:abc:11'', row_label = Val ''Drug'',
      row_properties = Val [(''name'', JStr ''Insulin'')], candidate_name = Val ''insulin''\<rparr>"

text \<open>A store that knows no exact or partial match and returns both rows as candidates of
  similar length.\<close>

definition fuzzy_store :: lookup_store where
  "fuzzy_store =
     \<lparr>respond = (\<lambda>q. if is_fuzzy_query q then Inr [insulin_row, aspirin_row] else Inr []),
      issued = []\<rparr>"

text \<open>The two values of \<^verbatim>\<open>Levenshtein.ratio\<close> that the example needs.\<close>

definition demo_ratio :: "string \<Rightarrow> string \<Rightarrow> real" where
  "demo_ratio a b =
     (if a = ''asprin'' \<and> b = ''aspirin'' then 12 / 13
      else if a = ''asprin'' \<and> b = ''insulin'' then 6 / 13
      else 0)"

definition demo_extractor :: extractor where
  "demo_extractor = new_extractor fuzzy_store None None None None (Some demo_ratio)"

section \<open>Properties of the subgraph assembly\<close>

lemma seed_entry_nodes_eq:
  "seed_entry_nodes ens (seen, ns) =
     (seen \<union> set (map node_id ens), ns @ first_by_id (filter (\<lambda>m. node_id m \<notin> seen) ens))"
proof (induction ens arbitrary: seen ns)
  case Nil
  show ?case by simp
next
  case (Cons en ens)
  have f: "filter (\<lambda>m. node_id m \<noteq> node_id en) (filter (\<lambda>m. node_id m \<notin> seen) ens)
         = filter (\<lambda>m. node_id m \<notin> insert (node_id en) seen) ens"
    by (simp add: conj_commute)
  show ?case using Cons.IH f by auto
qed

lemma set_first_by_id: "set (map node_id (first_by_id ns)) = set (map node_id ns)"
  by (induction ns rule: first_by_id.induct) auto

lemma distinct_first_by_id: "distinct (map node_id (first_by_id ns))"
proof (induction ns rule: first_by_id.induct)
  case 1
  show ?case by simp
next
  case (2 n ns)
  have "node_id n \<notin> set (map node_id (first_by_id (filter (\<lambda>m. node_id m \<noteq> node_id n) ns)))"
    unfolding set_first_by_id by auto
  with 2 show ?case by simp
qed

lemma add_side_inv:
  "ids_inv seen ns \<Longrightarrow> add_side r s (seen, ns) = (seen', ns') \<Longrightarrow>
     ids_inv seen' ns' \<and> prefix ns ns'"
  by (auto simp: add_side_def ids_inv_def side_node_def Let_def split: option.splits if_splits)

lemma add_row_inv:
  assumes "ids_inv seen ns" and "add_row r (seen, ns, rels) = (seen', ns', rels')"
  shows "ids_inv seen' ns' \<and> prefix ns ns'"
proof -
  obtain s1 n1 where a: "add_side r Source (seen, ns) = (s1, n1)"
    by (cases "add_side r Source (seen, ns)")
  obtain s2 n2 where b: "add_side r Target (s1, n1) = (s2, n2)"
    by (cases "add_side r Target (s1, n1)")
  from assms(2) a b have e: "seen' = s2" "ns' = n2" by (auto simp: add_row_def)
  from add_side_inv[OF assms(1) a] have 1: "ids_inv s1 n1" "prefix ns n1" by auto
  from add_side_inv[OF 1(1) b] have 2: "ids_inv s2 n2" "prefix n1 n2" by auto
  from 1 2 e show ?thesis by (auto intro: prefix_order.trans)
qed

lemma add_rows_inv:
  "ids_inv seen ns \<Longrightarrow> add_rows rows (seen, ns, rels) = (seen', ns', rels') \<Longrightarrow>
     ids_inv seen' ns' \<and> prefix ns ns'"
proof (induction rows arbitrary: seen ns rels)
  case Nil
  then show ?case by simp
next
  case (Cons r rows)
  obtain s1 n1 r1 where a: "add_row r (seen, ns, rels) = (s1, n1, r1)"
    by (cases "add_row r (seen, ns, rels)")
  from add_row_inv[OF Cons.prems(1) a] have 1: "ids_inv s1 n1" "prefix ns n1" by auto
  from Cons.prems(2) a have "add_rows rows (s1, n1, r1) = (seen', ns', rels')" by simp
  from Cons.IH[OF 1(1) this] 1 show ?case by (auto intro: prefix_order.trans)
qed

lemma build_subgraph_nodes:
  "distinct (map node_id (nodes (build_subgraph rows entry_nodes))) \<and>
   set (map node_id entry_nodes) \<subseteq> set (map node_id (nodes (build_subgraph rows entry_nodes))) \<and>
   prefix (first_by_id entry_nodes) (nodes (build_subgraph rows entry_nodes))"
proof -
  let ?seen = "set (map node_id entry_nodes)" and ?ns = "first_by_id entry_nodes"
  have s: "seed_entry_nodes entry_nodes ({}, []) = (?seen, ?ns)"
    by (simp add: seed_entry_nodes_eq)
  have i: "ids_inv ?seen ?ns"
    by (simp add: ids_inv_def set_first_by_id distinct_first_by_id del: set_map)
  obtain s' n' r' where a: "add_rows rows (?seen, ?ns, []) = (s', n', r')"
    by (cases "add_rows rows (?seen, ?ns, [])")
  from add_rows_inv[OF i a] have 1: "ids_inv s' n'" "prefix ?ns n'" by auto
  have b: "nodes (build_subgraph rows entry_nodes) = n'"
    using a by (simp add: build_subgraph_def s)
  from 1(2) have "set ?ns \<subseteq> set n'" by (rule set_mono_prefix)
  then have "set (map node_id ?ns) \<subseteq> set (map node_id n')" by auto
  then have c: "?seen \<subseteq> set (map node_id n')" unfolding set_first_by_id .
  from 1 b c show ?thesis by (simp add: ids_inv_def)
qed

lemma add_rows_rels:
  "snd (snd (add_rows rows (seen, ns, rels))) = rels @ concat (map row_edges rows)"
proof (induction rows arbitrary: seen ns rels)
  case Nil
  show ?case by simp
next
  case (Cons r rows)
  obtain s1 n1 where a: "add_side r Target (add_side r Source (seen, ns)) = (s1, n1)"
    by (cases "add_side r Target (add_side r Source (seen, ns))")
  have "add_row r (seen, ns, rels) = (s1, n1, rels @ row_edges r)"
    by (simp add: add_row_def a)
  then show ?case using Cons.IH[of s1 n1 "rels @ row_edges r"] by simp
qed

lemma build_subgraph_rels:
  "relationships (build_subgraph rows entry_nodes) = concat (map row_edges rows)"
proof -
  obtain s0 n0 where a: "seed_entry_nodes entry_nodes ({}, []) = (s0, n0)"
    by (cases "seed_entry_nodes entry_nodes ({}, [])")
  obtain s1 n1 r1 where b: "add_rows rows (s0, n0, []) = (s1, n1, r1)"
    by (cases "add_rows rows (s0, n0, [])")
  have "r1 = concat (map row_edges rows)"
    using add_rows_rels[of rows s0 n0 "[]"] b by simp
  then show ?thesis by (simp add: build_subgraph_def a b)
qed

lemma row_edges_cases:
  "(has_both_ids r \<and> (\<exists>ed. row_edges r = [ed] \<and> describes r ed)) \<or>
   (\<not> has_both_ids r \<and> row_edges r = [])"
  by (cases "source_id r"; cases "target_id r")
     (auto simp: row_edges_def has_both_ids_def describes_def)

lemma row_edges_all2:
  "list_all2 describes (filter has_both_ids rows) (concat (map row_edges rows))"
proof (induction rows)
  case Nil
  show ?case by simp
next
  case (Cons r rows)
  from row_edges_cases[of r] Cons show ?case by auto
qed

lemma has_both_ids_demo: "has_both_ids causes_row" "\<not> has_both_ids sourceless_row"
  by (simp_all add: has_both_ids_def causes_row_def sourceless_row_def)

lemma traverse_Inr:
  assumes "traverse e entry_nodes intent = (Inr sg, e')"
  shows "(entry_nodes = [] \<and> sg = empty_subgraph) \<or>
         (\<exists>rows. nodes sg = nodes (build_subgraph rows entry_nodes) \<and>
                 relationships sg = relationships (build_subgraph rows entry_nodes))"
  using assms
  by (auto simp: traverse_def Let_def split: if_splits sum.splits prod.splits)

lemma traverse_dict_pattern:
  assumes "entry_nodes \<noteq> []"
    and "map_of (intent_patterns e) intent = Some (JDict p)"
    and "map_of p ''strategy'' = Some strat"
    and "dispatch e strat = Inr fn"
  shows "traverse e entry_nodes intent =
           (case fn (map node_id entry_nodes) p of
              (Inl err, c') \<Rightarrow> (Inl err, e\<lparr>connector := c'\<rparr>)
            | (Inr (rows, depth), c') \<Rightarrow>
                (Inr \<lparr>nodes = nodes (build_subgraph rows entry_nodes),
                      relationships = relationships (build_subgraph rows entry_nodes),
                      strategy = strat, hop_depth = depth\<rparr>,
                 e\<lparr>connector := c'\<rparr>))"
proof -
  from assms(3) have "p \<noteq> []" by auto
  then show ?thesis using assms
    by (simp add: traverse_def strategy_of_def pget_def pattern_or_empty_def Let_def
        split: prod.splits sum.splits)
qed

lemma demo_traverse_general:
  "traverse (demo_engine [] silent_store)
      [demo_node ''id:1'' ''Aspirin'', demo_node ''id:2'' ''Warfarin'',
       demo_node ''id:1'' ''Acetylsalicylic acid'']
      ''unknown_intent''
   = (Inr \<lparr>nodes = [demo_node ''id:1'' ''Aspirin'', demo_node ''id:2'' ''Warfarin''],
           relationships = [], strategy = JStr ''general'', hop_depth = JInt 1\<rparr>,
      demo_engine [] (silent_store\<lparr>issued :=
         [\<lparr>cypher = General (JInt 30),
           params = [(''ids'', Ids [''id:1'', ''id:2'', ''id:1''])]\<rparr>]\<rparr>))"
  by (simp add: traverse_def demo_engine_def silent_store_def strategy_of_def dispatch_def
      general_def run_query_def execute_query_def pattern_or_empty_def build_subgraph_def
      demo_node_def Let_def)

text \<open>
  C1. Whenever \<^verbatim>\<open>traverse\<close> returns a subgraph, for any entry nodes, any intent and any
  rows the store answered with: the ids of the result's nodes are pairwise different, every
  entry node's id is among them, and the result's node list starts with the entry nodes in
  the order given, deduplicated by id. The concrete instance is a store that returns zero
  rows and an entry list that repeats an id.
\<close>

theorem traverse_node_ids:
  assumes "traverse e entry_nodes intent = (Inr sg, e')"
  shows "distinct (map node_id (nodes sg)) \<and>
         set (map node_id entry_nodes) \<subseteq> set (map node_id (nodes sg)) \<and>
         prefix (first_by_id entry_nodes) (nodes sg)"
proof -
  from traverse_Inr[OF assms] show ?thesis
  proof
    assume "entry_nodes = [] \<and> sg = empty_subgraph"
    then show ?thesis by (simp add: empty_subgraph_def)
  next
    assume "\<exists>rows. nodes sg = nodes (build_subgraph rows entry_nodes) \<and>
                 relationships sg = relationships (build_subgraph rows entry_nodes)"
    then obtain rows where "nodes sg = nodes (build_subgraph rows entry_nodes)" by blast
    then show ?thesis using build_subgraph_nodes[of rows entry_nodes] by simp
  qed
qed

theorem traverse_node_ids_witness:
  "distinct [''id:1'', ''id:2''] \<and>
   set [''id:1'', ''id:2'', ''id:1''] \<subseteq> set [''id:1'', ''id:2''] \<and>
   prefix (first_by_id [demo_node ''id:1'' ''Aspirin'', demo_node ''id:2'' ''Warfarin'',
                        demo_node ''id:1'' ''Acetylsalicylic acid''])
          [demo_node ''id:1'' ''Aspirin'', demo_node ''id:2'' ''Warfarin'']"
  using traverse_node_ids[OF demo_traverse_general]
  by (simp add: demo_node_def)

text \<open>
  C5, as the code has it. The relationship list holds one edge for each row whose
  \<^verbatim>\<open>source_id\<close> and \<^verbatim>\<open>target_id\<close> are both present and non-empty, in row order, built
  from that row, and nothing else: a row without one of the two ids contributes no edge,
  and equal rows are not merged. The concrete instance has the same row twice and a row
  without a source id between them; two edges result.
\<close>

theorem build_subgraph_edges:
  "list_all2 describes (filter has_both_ids rows) (relationships (build_subgraph rows entry_nodes))"
  by (simp add: build_subgraph_rels row_edges_all2)

theorem build_subgraph_edges_witness:
  "list_all2 describes [causes_row, causes_row]
     (relationships (build_subgraph [causes_row, sourceless_row, causes_row] [])) \<and>
   length (relationships (build_subgraph [causes_row, sourceless_row, causes_row] [])) = 2"
proof -
  have h: "list_all2 describes [causes_row, causes_row]
     (relationships (build_subgraph [causes_row, sourceless_row, causes_row] []))"
    using build_subgraph_edges[of "[causes_row, sourceless_row, causes_row]" "[]"]
    by (simp add: has_both_ids_demo)
  from list_all2_lengthD[OF h] h show ?thesis by simp
qed

text \<open>
  C5 as stated fails: a single row whose \<^verbatim>\<open>source_id\<close> key is missing yields no edge,
  so the number of edges is not the number of rows.
\<close>

theorem build_subgraph_row_without_edge:
  "length (relationships (build_subgraph [sourceless_row] [])) \<noteq> length [sourceless_row]"
  by (simp add: build_subgraph_rels row_edges_def has_both_ids_def sourceless_row_def
      causes_row_def)

section \<open>Properties of the traversal strategies\<close>

text \<open>
  C2. With no entry nodes \<^verbatim>\<open>traverse\<close> returns the canonical empty subgraph for every
  intent and every engine: the result does not depend on the pattern registry, and the
  engine, with its connector and the list of queries sent, is returned as it was.
\<close>

theorem traverse_empty_entry_nodes:
  "traverse e [] intent =
     (Inr \<lparr>nodes = [], relationships = [], strategy = JStr ''none'', hop_depth = JInt 0\<rparr>, e)"
  by (simp add: traverse_def empty_subgraph_def)

text \<open>
  C3. Called with fewer than two entry ids, \<^verbatim>\<open>_shortest_path\<close> is a \<^verbatim>\<open>variable_hop\<close>
  query with \<open>min_hops = 1\<close> and \<open>max_hops\<close> the pattern's \<^verbatim>\<open>max_hops\<close> (6 when the
  key is missing): that query is the one query added to the connector's list, and no
  shortest-path query is among the queries the call sent.
\<close>

theorem shortest_path_degrades:
  assumes "length entry_ids < 2"
  shows "shortest_path c entry_ids pattern =
           run_query c
             (VariableHop (JInt 1) (case map_of pattern ''max_hops'' of None \<Rightarrow> JInt 6 | Some v \<Rightarrow> v))
             [(''ids'', Ids entry_ids)]
             (case map_of pattern ''max_hops'' of None \<Rightarrow> JInt 6 | Some v \<Rightarrow> v) \<and>
         issued (snd (shortest_path c entry_ids pattern)) =
           issued c @
             [\<lparr>cypher = VariableHop (JInt 1)
                  (case map_of pattern ''max_hops'' of None \<Rightarrow> JInt 6 | Some v \<Rightarrow> v),
               params = [(''ids'', Ids entry_ids)]\<rparr>] \<and>
         \<not> list_ex is_shortest_path_query
             (drop (length (issued c)) (issued (snd (shortest_path c entry_ids pattern))))"
  using assms
  by (simp add: shortest_path_def variable_hop_def pget_def run_query_def execute_query_def
      is_shortest_path_query_def Let_def split: sum.splits)

theorem shortest_path_degrades_witness:
  "length [''id:1''] < 2 \<and>
   shortest_path silent_store [''id:1''] [(''strategy'', JStr ''shortest_path'')] =
     (Inr ([], JInt 6),
      silent_store\<lparr>issued :=
        [\<lparr>cypher = VariableHop (JInt 1) (JInt 6), params = [(''ids'', Ids [''id:1''])]\<rparr>]\<rparr>)"
  using shortest_path_degrades[of "[''id:1'']" silent_store "[(''strategy'', JStr ''shortest_path'')]"]
  by (simp add: run_query_def execute_query_def silent_store_def)

text \<open>
  C8. When the configured \<^verbatim>\<open>min_connections\<close> (2 when the key is missing) is a number
  \<open>k\<close>, \<^verbatim>\<open>_shared_neighbor\<close> sends exactly one query, whose \<^verbatim>\<open>min_conn\<close> parameter has
  the value \<open>min k (len entry_ids)\<close>.
\<close>

theorem shared_neighbor_min_conn:
  assumes "json_num (case map_of pattern ''min_connections'' of None \<Rightarrow> JInt 2 | Some v \<Rightarrow> v) = Some k"
  shows "\<exists>v. issued (snd (shared_neighbor c entry_ids pattern)) =
               issued c @
                 [\<lparr>cypher = SharedNeighbor,
                   params = [(''ids'', Ids entry_ids), (''min_conn'', Scalar v)]\<rparr>] \<and>
             json_num v = Some (min k (int (length entry_ids)))"
proof -
  let ?conf = "pget pattern ''min_connections'' (JInt 2)"
  from assms have n: "json_num ?conf = Some k" by (simp add: pget_def)
  then obtain v where v: "py_min ?conf (int (length entry_ids)) = Inr v"
    and k: "json_num v = Some (min k (int (length entry_ids)))"
    by (cases ?conf) (auto simp: min_def)
  have "issued (snd (shared_neighbor c entry_ids pattern)) =
          issued c @ [\<lparr>cypher = SharedNeighbor,
                       params = [(''ids'', Ids entry_ids), (''min_conn'', Scalar v)]\<rparr>]"
    by (simp add: shared_neighbor_def v run_query_def execute_query_def split: sum.splits)
  with k show ?thesis by blast
qed

theorem shared_neighbor_min_conn_witness:
  "json_num (JInt 2) = Some 2 \<and>
   (\<exists>v. issued (snd (shared_neighbor silent_store [''id:1'']
                       [(''strategy'', JStr ''shared_neighbor''), (''min_connections'', JInt 2)])) =
          [\<lparr>cypher = SharedNeighbor,
            params = [(''ids'', Ids [''id:1'']), (''min_conn'', Scalar v)]\<rparr>] \<and>
        json_num v = Some 1)"
  using shared_neighbor_min_conn[of "[(''strategy'', JStr ''shared_neighbor''), (''min_connections'', JInt 2)]"
          2 silent_store "[''id:1'']"]
  by (simp add: silent_store_def)

text \<open>
  C6. A \<^verbatim>\<open>traverse\<close> call with entry nodes whose intent names a \<^verbatim>\<open>chained\<close> pattern
  without the key \<^verbatim>\<open>hops\<close> fails with \<^verbatim>\<open>KeyError('hops')\<close>; the engine after the call
  is the engine before it (same registry, same connector, no query sent), so every later
  call, for any intent, behaves as if the failed call had not been made.
\<close>

theorem chained_without_hops_fails:
  assumes "entry_nodes \<noteq> []"
    and "map_of (intent_patterns e) intent = Some (JDict p)"
    and "map_of p ''strategy'' = Some (JStr ''chained'')"
    and "map_of p ''hops'' = None"
  shows "traverse e entry_nodes intent = (Inl (KeyError ''hops''), e) \<and>
         traverse (snd (traverse e entry_nodes intent)) other_nodes other_intent =
           traverse e other_nodes other_intent"
proof -
  have d: "dispatch e (JStr ''chained'') = Inr (chained (connector e))"
    by (simp add: dispatch_def)
  have c: "chained (connector e) (map node_id entry_nodes) p = (Inl (KeyError ''hops''), connector e)"
    using assms(4) by (simp add: chained_def pitem_def)
  have "traverse e entry_nodes intent = (Inl (KeyError ''hops''), e)"
    using traverse_dict_pattern[OF assms(1) assms(2) assms(3) d] by (simp add: c)
  then show ?thesis by simp
qed

theorem chained_without_hops_fails_witness:
  "traverse (demo_engine demo_registry silent_store) [demo_node ''id:1'' ''Aspirin'']
      ''indirect_symptoms'' =
     (Inl (KeyError ''hops''), demo_engine demo_registry silent_store) \<and>
   traverse (snd (traverse (demo_engine demo_registry silent_store)
                    [demo_node ''id:1'' ''Aspirin''] ''indirect_symptoms''))
      [demo_node ''id:1'' ''Aspirin''] ''neighborhood'' =
     traverse (demo_engine demo_registry silent_store) [demo_node ''id:1'' ''Aspirin'']
       ''neighborhood''"
proof -
  have a: "[demo_node ''id:1'' ''Aspirin''] \<noteq> []" by simp
  have b: "map_of (intent_patterns (demo_engine demo_registry silent_store)) ''indirect_symptoms''
             = Some (JDict [(''strategy'', JStr ''chained''), (''entry_label'', JStr ''Drug'')])"
    by (simp add: demo_engine_def demo_registry_def)
  have c: "map_of [(''strategy'', JStr ''chained''), (''entry_label'', JStr ''Drug'')] ''strategy''
             = Some (JStr ''chained'')" by simp
  have d: "map_of [(''strategy'', JStr ''chained''), (''entry_label'', JStr ''Drug'')] ''hops'' = None"
    by simp
  from chained_without_hops_fails[OF a b c d] show ?thesis .
qed

text \<open>
  C10. For a \<^verbatim>\<open>variable_hop\<close> pattern, \<^verbatim>\<open>min_hops\<close> is 1 and \<^verbatim>\<open>max_hops\<close> is 2 where
  the pattern omits the key; \<^verbatim>\<open>_variable_hop\<close> sends the query with those bounds and
  returns \<^verbatim>\<open>max_hops\<close> as the depth, and \<^verbatim>\<open>traverse\<close> fails only when the store does,
  with the store's error, and otherwise returns a subgraph whose \<^verbatim>\<open>hop_depth\<close> is that
  \<^verbatim>\<open>max_hops\<close>.
\<close>

theorem variable_hop_defaults:
  assumes "entry_nodes \<noteq> []"
    and "map_of (intent_patterns e) intent = Some (JDict p)"
    and "map_of p ''strategy'' = Some (JStr ''variable_hop'')"
  shows
    "let min_h = (case map_of p ''min_hops'' of None \<Rightarrow> JInt 1 | Some v \<Rightarrow> v);
         max_h = (case map_of p ''max_hops'' of None \<Rightarrow> JInt 2 | Some v \<Rightarrow> v);
         q = \<lparr>cypher = VariableHop min_h max_h, params = [(''ids'', Ids (map node_id entry_nodes))]\<rparr>;
         e' = e\<lparr>connector := (connector e)\<lparr>issued := issued (connector e) @ [q]\<rparr>\<rparr>
     in variable_hop (connector e) (map node_id entry_nodes) p =
          (case respond (connector e) q of
             Inl err \<Rightarrow> Inl err
           | Inr rows \<Rightarrow> Inr (rows, max_h),
           connector e') \<and>
        traverse e entry_nodes intent =
          (case respond (connector e) q of
             Inl err \<Rightarrow> (Inl err, e')
           | Inr rows \<Rightarrow>
               (Inr \<lparr>nodes = nodes (build_subgraph rows entry_nodes),
                     relationships = relationships (build_subgraph rows entry_nodes),
                     strategy = JStr ''variable_hop'', hop_depth = max_h\<rparr>, e'))"
proof -
  have d: "dispatch e (JStr ''variable_hop'') = Inr (variable_hop (connector e))"
    by (simp add: dispatch_def)
  show ?thesis
    unfolding traverse_dict_pattern[OF assms(1) assms(2) assms(3) d]
    by (simp add: variable_hop_def pget_def run_query_def execute_query_def Let_def
        split: sum.splits)
qed

theorem variable_hop_defaults_witness:
  "traverse (demo_engine demo_registry silent_store) [demo_node ''id:42'' ''Lisinopril'']
      ''neighborhood'' =
     (Inr \<lparr>nodes = [demo_node ''id:42'' ''Lisinopril''], relationships = [],
           strategy = JStr ''variable_hop'', hop_depth = JInt 2\<rparr>,
      demo_engine demo_registry (silent_store\<lparr>issued :=
        [\<lparr>cypher = VariableHop (JInt 1) (JInt 2), params = [(''ids'', Ids [''id:42''])]\<rparr>]\<rparr>))"
proof -
  have a: "[demo_node ''id:42'' ''Lisinopril''] \<noteq> []" by simp
  have b: "map_of (intent_patterns (demo_engine demo_registry silent_store)) ''neighborhood''
             = Some (JDict [(''strategy'', JStr ''variable_hop'')])"
    by (simp add: demo_engine_def demo_registry_def)
  have c: "map_of [(''strategy'', JStr ''variable_hop'')] ''strategy'' = Some (JStr ''variable_hop'')"
    by simp
  from variable_hop_defaults[OF a b c] show ?thesis
    by (simp add: Let_def silent_store_def demo_engine_def build_subgraph_def demo_node_def)
qed

section \<open>Properties of the keyword extraction\<close>

lemma first_seen_filter: "first_seen (filter P xs) = filter P (first_seen xs)"
proof (induction xs rule: first_seen.induct)
  case 1
  show ?case by simp
next
  case (2 x xs)
  have c: "filter (\<lambda>y. y \<noteq> x) (filter P xs) = filter P (filter (\<lambda>y. y \<noteq> x) xs)"
    by (simp add: conj_commute)
  show ?case
  proof (cases "P x")
    case True
    then show ?thesis using 2 c by simp
  next
    case False
    have "filter P (filter (\<lambda>y. y \<noteq> x) xs) = filter P xs"
      using False by (auto intro: filter_cong)
    then show ?thesis using False 2 by simp
  qed
qed

lemma set_first_seen: "set (first_seen xs) = set xs"
  by (induction xs rule: first_seen.induct) auto

lemma distinct_first_seen: "distinct (first_seen xs)"
  by (induction xs rule: first_seen.induct) (auto simp: set_first_seen)

lemma first_seen_append:
  "first_seen (xs @ ys) = first_seen xs @ filter (\<lambda>y. y \<notin> set xs) (first_seen ys)"
proof (induction xs arbitrary: ys rule: first_seen.induct)
  case 1
  show ?case by simp
next
  case (2 x xs)
  have "first_seen ((x # xs) @ ys)
        = x # first_seen (filter (\<lambda>y. y \<noteq> x) xs @ filter (\<lambda>y. y \<noteq> x) ys)" by simp
  also have "\<dots> = x # first_seen (filter (\<lambda>y. y \<noteq> x) xs)
        @ filter (\<lambda>y. y \<notin> set (filter (\<lambda>y. y \<noteq> x) xs)) (first_seen (filter (\<lambda>y. y \<noteq> x) ys))"
    using 2[of "filter (\<lambda>y. y \<noteq> x) ys"] by simp
  also have "filter (\<lambda>y. y \<notin> set (filter (\<lambda>y. y \<noteq> x) xs)) (first_seen (filter (\<lambda>y. y \<noteq> x) ys))
        = filter (\<lambda>y. y \<notin> set (x # xs)) (first_seen ys)"
    unfolding first_seen_filter by (auto intro: filter_cong)
  finally show ?case by simp
qed

lemma first_seen_append3:
  "first_seen (as @ bs @ cs) =
     (first_seen as @ filter (\<lambda>p. p \<notin> set (first_seen as)) (first_seen bs))
     @ filter (\<lambda>p. p \<notin> set (first_seen as @ filter (\<lambda>p. p \<notin> set (first_seen as)) (first_seen bs)))
         (first_seen cs)"
proof -
  have "filter (\<lambda>p. p \<notin> set as) (filter (\<lambda>p. p \<notin> set bs) (first_seen cs))
        = filter (\<lambda>p. p \<notin> set (first_seen as @ filter (\<lambda>p. p \<notin> set (first_seen as)) (first_seen bs)))
            (first_seen cs)"
    by (auto simp: set_first_seen intro: filter_cong)
  then show ?thesis
    by (simp add: first_seen_append set_first_seen del: filter_filter)
qed

lemma fold_add_phrase:
  "fold add_phrase ps (cands, set cands) =
     (cands @ filter (\<lambda>p. p \<notin> set cands) (first_seen ps),
      set (cands @ filter (\<lambda>p. p \<notin> set cands) (first_seen ps)))"
proof (induction ps arbitrary: cands)
  case Nil
  show ?case by simp
next
  case (Cons p ps)
  show ?case
  proof (cases "p \<in> set cands")
    case True
    have "filter (\<lambda>q. q \<notin> set cands) (filter (\<lambda>y. y \<noteq> p) (first_seen ps))
          = filter (\<lambda>q. q \<notin> set cands) (first_seen ps)"
      using True by (auto intro: filter_cong)
    then show ?thesis using True Cons[of cands]
      by (simp add: add_phrase_def first_seen_filter)
  next
    case False
    have a: "add_phrase p (cands, set cands) = (cands @ [p], set (cands @ [p]))"
      using False by (simp add: add_phrase_def)
    have "filter (\<lambda>q. q \<notin> set (cands @ [p])) (first_seen ps)
          = filter (\<lambda>q. q \<notin> set cands) (filter (\<lambda>y. y \<noteq> p) (first_seen ps))"
      by (auto intro: filter_cong)
    then show ?thesis using False Cons[of "cands @ [p]"]
      by (simp add: a first_seen_filter del: set_append)
  qed
qed

lemma ngram_loop_eq:
  "ngram_loop toks n (cands, set cands) =
     (cands @ filter (\<lambda>p. p \<notin> set cands) (first_seen (ngrams n toks)),
      set (cands @ filter (\<lambda>p. p \<notin> set cands) (first_seen (ngrams n toks))))"
proof -
  have "ngram_loop toks n (cands, set cands) = fold add_phrase (ngrams n toks) (cands, set cands)"
    by (simp add: ngram_loop_def ngrams_def fold_map comp_def)
  then show ?thesis by (simp only: fold_add_phrase)
qed

lemma extract_keywords_first_seen:
  "extract_keywords sw q =
     first_seen (ngrams 3 (content_tokens sw q) @ ngrams 2 (content_tokens sw q)
                 @ ngrams 1 (content_tokens sw q))"
proof -
  let ?ct = "content_tokens sw q"
  let ?c3 = "first_seen (ngrams 3 ?ct)"
  let ?c2 = "?c3 @ filter (\<lambda>p. p \<notin> set ?c3) (first_seen (ngrams 2 ?ct))"
  let ?c1 = "?c2 @ filter (\<lambda>p. p \<notin> set ?c2) (first_seen (ngrams 1 ?ct))"
  have 3: "ngram_loop ?ct 3 ([], {}) = (?c3, set ?c3)"
    using ngram_loop_eq[of ?ct 3 "[]"] by simp
  have 2: "ngram_loop ?ct 2 (?c3, set ?c3) = (?c2, set ?c2)"
    by (rule ngram_loop_eq)
  have 1: "ngram_loop ?ct 1 (?c2, set ?c2) = (?c1, set ?c1)"
    by (rule ngram_loop_eq)
  have "extract_keywords sw q
          = fst (ngram_loop ?ct 1 (ngram_loop ?ct 2 (ngram_loop ?ct 3 ([], {}))))"
    by (simp only: extract_keywords_def fold_simps o_apply id_apply)
  also have "\<dots> = ?c1"
    by (simp only: 3 2 1 fst_conv)
  also have "?c1 = first_seen (ngrams 3 ?ct @ ngrams 2 ?ct @ ngrams 1 ?ct)"
    by (rule first_seen_append3[symmetric])
  finally show ?thesis .
qed

lemma split_run_tokens:
  "\<forall>c \<in> set cur. \<not> is_space c \<Longrightarrow> t \<in> set (split_run cur s) \<Longrightarrow>
     t \<noteq> [] \<and> (\<forall>c \<in> set t. \<not> is_space c)"
proof (induction s arbitrary: cur)
  case Nil
  then show ?case by (cases "cur = []") simp_all
next
  case (Cons c cs)
  show ?case
  proof (cases "is_space c")
    case True
    show ?thesis
    proof (cases "cur = []")
      case True
      with \<open>is_space c\<close> Cons.prems(2) have "t \<in> set (split_run [] cs)" by simp
      then show ?thesis using Cons.IH[of "[]"] by simp
    next
      case False
      with \<open>is_space c\<close> Cons.prems(2) have "t = cur \<or> t \<in> set (split_run [] cs)" by simp
      then show ?thesis
      proof
        assume "t = cur"
        with False Cons.prems(1) show ?thesis by simp
      next
        assume "t \<in> set (split_run [] cs)"
        then show ?thesis using Cons.IH[of "[]"] by simp
      qed
    qed
  next
    case False
    with Cons.prems(2) have m: "t \<in> set (split_run (cur @ [c]) cs)" by simp
    from False Cons.prems(1) have "\<forall>d \<in> set (cur @ [c]). \<not> is_space d" by simp
    from Cons.IH[OF this m] show ?thesis .
  qed
qed

lemma split_run_nonempty:
  "split_run cur s \<noteq> [] \<longleftrightarrow> cur \<noteq> [] \<or> (\<exists>c \<in> set s. \<not> is_space c)"
proof (induction s arbitrary: cur)
  case Nil
  show ?case by simp
next
  case (Cons c cs)
  show ?case
  proof (cases "is_space c")
    case True
    then show ?thesis using Cons.IH[of "[]"] by (cases "cur = []") simp_all
  next
    case False
    then show ?thesis using Cons.IH[of "cur @ [c]"] by auto
  qed
qed

lemma lower_char_cases: "lower_char c = c \<or> lower_char c \<in> set lower_chars"
proof (cases "map_of (zip upper_chars lower_chars) c")
  case None
  then have "lower_char c = c" by (simp only: lower_char_def option.case)
  then show ?thesis ..
next
  case (Some l)
  then have "(c, l) \<in> set (zip upper_chars lower_chars)"
    by (rule map_of_SomeD)
  then have "l \<in> set lower_chars" by (rule set_zip_rightD)
  moreover from Some have "lower_char c = l" by (simp only: lower_char_def option.case)
  ultimately have "lower_char c \<in> set lower_chars" by (simp only:)
  then show ?thesis ..
qed

lemma lower_letters_not_space: "l \<in> set lower_chars \<Longrightarrow> \<not> is_space l"
  by (auto simp: lower_chars_def is_space_def)

lemma space_not_upper: "is_space c \<Longrightarrow> c \<notin> set upper_chars"
  by (auto simp: upper_chars_def is_space_def)

lemma lower_char_space: "is_space c \<Longrightarrow> lower_char c = c"
proof -
  assume "is_space c"
  then have u: "c \<notin> set upper_chars" by (rule space_not_upper)
  have "map_of (zip upper_chars lower_chars) c = None"
  proof (cases "map_of (zip upper_chars lower_chars) c")
    case None
    then show ?thesis .
  next
    case (Some l)
    then have "(c, l) \<in> set (zip upper_chars lower_chars)"
      by (rule map_of_SomeD)
    then have "c \<in> set upper_chars" by (rule set_zip_leftD)
    with u show ?thesis by (rule notE)
  qed
  then show ?thesis by (simp only: lower_char_def option.case)
qed

lemma is_space_lower_char: "is_space (lower_char c) \<longleftrightarrow> is_space c"
proof
  assume a: "is_space (lower_char c)"
  from lower_char_cases[of c] show "is_space c"
  proof
    assume "lower_char c = c"
    with a show ?thesis by (simp only:)
  next
    assume "lower_char c \<in> set lower_chars"
    then have "\<not> is_space (lower_char c)" by (rule lower_letters_not_space)
    with a show ?thesis by (rule notE[rotated])
  qed
next
  assume "is_space c"
  then show "is_space (lower_char c)" by (simp only: lower_char_space)
qed

lemma alnum_not_space: "ascii_alnum c \<or> c = CHR ''-'' \<Longrightarrow> \<not> is_space c"
  by (auto simp: ascii_alnum_def is_space_def Let_def)

lemma space_literal: "is_space CHR '' ''"
  by (simp add: is_space_def)

lemma clean_char_space:
  "is_space (if ascii_alnum c \<or> is_space c \<or> c = CHR ''-'' then c else CHR '' '')
     \<longleftrightarrow> \<not> (ascii_alnum c \<or> c = CHR ''-'')"
  using alnum_not_space[of c] space_literal by (cases "ascii_alnum c \<or> c = CHR ''-''") auto

lemma tokenize_nonempty:
  "tokenize query \<noteq> [] \<longleftrightarrow> (\<exists>c \<in> set query. ascii_alnum c \<or> c = CHR ''-'')"
proof -
  have "tokenize query \<noteq> [] \<longleftrightarrow> (\<exists>d \<in> set (lower (clean query)). \<not> is_space d)"
    by (simp only: tokenize_def split_def split_run_nonempty simp_thms)
  also have "\<dots> \<longleftrightarrow>
      (\<exists>c \<in> set query. \<not> is_space (if ascii_alnum c \<or> is_space c \<or> c = CHR ''-'' then c else CHR '' ''))"
    by (simp only: lower_def clean_def set_map bex_simps is_space_lower_char image_image)
  also have "\<dots> \<longleftrightarrow> (\<exists>c \<in> set query. ascii_alnum c \<or> c = CHR ''-'')"
    by (simp only: clean_char_space not_not)
  finally show ?thesis .
qed

lemma tokenize_tokens:
  assumes "t \<in> set (tokenize query)"
  shows "t \<noteq> [] \<and> CHR '' '' \<notin> set t"
proof -
  from assms have m: "t \<in> set (split_run [] (lower (clean query)))"
    by (simp only: tokenize_def split_def)
  have "\<forall>c \<in> set []. \<not> is_space c" by simp
  from split_run_tokens[OF this m] have 1: "t \<noteq> []" and 2: "\<forall>c \<in> set t. \<not> is_space c"
    by blast+
  from 2 space_literal have "CHR '' '' \<notin> set t" by blast
  with 1 show ?thesis by blast
qed

lemma content_tokens_subset: "set (content_tokens sw q) \<subseteq> set (tokenize q)"
  by (simp add: content_tokens_def Let_def)

lemma content_tokens_nonempty: "content_tokens sw q \<noteq> [] \<longleftrightarrow> tokenize q \<noteq> []"
  by (cases "tokenize q = []") (simp_all add: content_tokens_def Let_def)

lemma content_tokens_tokens:
  "t \<in> set (content_tokens sw q) \<Longrightarrow> t \<noteq> [] \<and> CHR '' '' \<notin> set t"
  using content_tokens_subset[of sw q] tokenize_tokens[of t q] by blast

lemma ngrams_1: "ngrams 1 toks = toks"
proof -
  have "map (\<lambda>i. join '' '' (take 1 (drop i toks))) [0..<length toks]
        = map (\<lambda>i. toks ! i) [0..<length toks]"
  proof (rule map_cong[OF refl])
    fix i assume "i \<in> set [0..<length toks]"
    then have "i < length toks" by simp
    then have "take 1 (drop i toks) = [toks ! i]"
      by (simp add: take_Suc_conv_app_nth)
    then show "join '' '' (take 1 (drop i toks)) = toks ! i" by simp
  qed
  then show ?thesis by (simp add: ngrams_def map_nth)
qed

lemma ngrams_Nil: "0 < n \<Longrightarrow> ngrams n [] = []"
  by (simp add: ngrams_def)

lemma first_seen_Nil_iff: "first_seen xs = [] \<longleftrightarrow> xs = []"
  by (cases xs) simp_all

text \<open>
  C4, as the code has it. For every stop-word set, the candidate list is non-empty exactly
  when the query has an ASCII letter (\<^verbatim>\<open>a-z\<close>, \<^verbatim>\<open>A-Z\<close>), an ASCII digit or a hyphen, that
  is, at least one token; this holds also when every token is a stop-word. Any other
  character, a letter outside ASCII included, is replaced by a space and gives no token. The concrete instance is the query
  \<^verbatim>\<open>what is the\<close>, all of whose tokens are in the default stop-word list.
\<close>

theorem extract_keywords_nonempty:
  "extract_keywords sw query \<noteq> [] \<longleftrightarrow> (\<exists>c \<in> set query. ascii_alnum c \<or> c = CHR ''-'')"
proof -
  have "extract_keywords sw query \<noteq> [] \<longleftrightarrow> content_tokens sw query \<noteq> []"
  proof (cases "content_tokens sw query = []")
    case True
    then show ?thesis by (simp add: extract_keywords_first_seen ngrams_Nil)
  next
    case False
    then show ?thesis
      by (simp only: extract_keywords_first_seen first_seen_Nil_iff ngrams_1 append_is_Nil_conv
          simp_thms)
  qed
  then show ?thesis by (simp only: content_tokens_nonempty tokenize_nonempty)
qed

lemma tokenize_stop_words: "tokenize ''what is the'' = [''what'', ''is'', ''the'']"
  by (simp add: tokenize_def split_def lower_def clean_def lower_char_def upper_chars_def
      lower_chars_def ascii_alnum_def is_space_def)

lemma stop_words_only:
  "filter (\<lambda>t. t \<notin> set DEFAULT_STOP_WORDS) [''what'', ''is'', ''the''] = []"
  by (simp add: DEFAULT_STOP_WORDS_def)

theorem extract_keywords_nonempty_witness:
  "filter (\<lambda>t. t \<notin> set DEFAULT_STOP_WORDS) (tokenize ''what is the'') = [] \<and>
   extract_keywords (set DEFAULT_STOP_WORDS) ''what is the'' \<noteq> []"
proof -
  have "\<exists>c \<in> set ''what is the''. ascii_alnum c \<or> c = CHR ''-''"
    by (simp add: ascii_alnum_def)
  then have "extract_keywords (set DEFAULT_STOP_WORDS) ''what is the'' \<noteq> []"
    by (simp only: extract_keywords_nonempty)
  then show ?thesis by (simp only: tokenize_stop_words stop_words_only simp_thms)
qed

lemma tokenize_question_mark: "tokenize ''?'' = []"
  by (simp add: tokenize_def split_def lower_def clean_def lower_char_def upper_chars_def
      lower_chars_def ascii_alnum_def is_space_def)

text \<open>
  C4 as stated fails: the query \<^verbatim>\<open>?\<close> is not empty and not white space only, so it
  passes the guard of \<^verbatim>\<open>extract_entry_nodes\<close>, and it has no token and no candidate.
\<close>

theorem extract_keywords_punctuation_only:
  "''?'' \<noteq> [] \<and> strip ''?'' \<noteq> [] \<and> extract_keywords (set DEFAULT_STOP_WORDS) ''?'' = []"
proof -
  have 1: "strip ''?'' \<noteq> []" by (simp add: strip_def is_space_def)
  have 2: "content_tokens (set DEFAULT_STOP_WORDS) ''?'' = []"
    by (simp add: content_tokens_def tokenize_question_mark)
  have "extract_keywords (set DEFAULT_STOP_WORDS) ''?'' = []"
    by (simp add: extract_keywords_def 2 ngram_loop_def)
  with 1 show ?thesis by simp
qed

text \<open>A letter outside ASCII gives no token either: the query of the one letter U+00E9
  passes the guard of \<^verbatim>\<open>extract_entry_nodes\<close> and has no candidate, whatever the
  stop-words.\<close>

lemma extract_keywords_letter_outside_ascii:
  "strip [CHR 0xE9] \<noteq> [] \<and> extract_keywords sw [CHR 0xE9] = []"
proof -
  have 1: "strip [CHR 0xE9] \<noteq> []" by (simp add: strip_def is_space_def)
  have t: "tokenize [CHR 0xE9] = []"
    by (simp add: tokenize_def split_def lower_def clean_def lower_char_def upper_chars_def
        lower_chars_def ascii_alnum_def is_space_def)
  have 2: "content_tokens sw [CHR 0xE9] = []"
    by (simp add: content_tokens_def t)
  have "extract_keywords sw [CHR 0xE9] = []"
    by (simp add: extract_keywords_def 2 ngram_loop_def)
  with 1 show ?thesis by simp
qed

lemma spaces_append: "spaces (a @ b) = spaces a + spaces b"
  by (simp add: spaces_def)

lemma spaces_no_space: "CHR '' '' \<notin> set t \<Longrightarrow> spaces t = 0"
  by (auto simp: spaces_def filter_empty_conv)

lemma spaces_join:
  "\<forall>t \<in> set ts. CHR '' '' \<notin> set t \<Longrightarrow> spaces (join '' '' ts) = length ts - 1"
proof (induction ts rule: induct_list012)
  case 1
  show ?case by (simp add: spaces_def)
next
  case (2 t)
  then show ?case by (simp add: spaces_no_space)
next
  case (3 t u ts)
  from 3(3) have a: "spaces t = 0" by (simp add: spaces_no_space)
  from 3(3) have "\<forall>t \<in> set (u # ts). CHR '' '' \<notin> set t" by simp
  from 3(2)[OF this] have b: "spaces (join '' '' (u # ts)) = length ts" by simp
  have c: "spaces '' '' = 1" by (simp add: spaces_def)
  have "join '' '' (t # u # ts) = t @ '' '' @ join '' '' (u # ts)" by simp
  then have "spaces (join '' '' (t # u # ts)) = spaces t + (spaces '' '' + spaces (join '' '' (u # ts)))"
    by (simp only: spaces_append)
  then show ?case by (simp add: a b c)
qed

lemma ngram_mem:
  "0 < n \<Longrightarrow> i + n \<le> length toks \<Longrightarrow> join '' '' (take n (drop i toks)) \<in> set (ngrams n toks)"
proof -
  assume "0 < n" and "i + n \<le> length toks"
  then have "i \<in> set [0 ..< length toks + 1 - n]" by simp
  then have "(\<lambda>i. join '' '' (take n (drop i toks))) i
               \<in> (\<lambda>i. join '' '' (take n (drop i toks))) ` set [0 ..< length toks + 1 - n]"
    by (rule imageI)
  then show ?thesis by (simp only: ngrams_def set_map)
qed

lemma ngram_spaces:
  assumes "0 < n" and "p \<in> set (ngrams n toks)" and "\<forall>t \<in> set toks. CHR '' '' \<notin> set t"
  shows "spaces p = n - 1"
proof -
  from assms(2) obtain i where i: "i < length toks + 1 - n" and p: "p = join '' '' (take n (drop i toks))"
    by (auto simp: ngrams_def)
  from i assms(1) have l: "length (take n (drop i toks)) = n" by simp
  have "set (take n (drop i toks)) \<subseteq> set toks"
    by (meson set_drop_subset set_take_subset subset_trans)
  with assms(3) have "\<forall>t \<in> set (take n (drop i toks)). CHR '' '' \<notin> set t" by blast
  from spaces_join[OF this] l p show ?thesis by simp
qed

lemma index_of_left: "x \<in> set xs \<Longrightarrow> index_of (xs @ ys) x < length xs"
proof -
  assume a: "x \<in> set xs"
  then have "takeWhile (\<lambda>y. y \<noteq> x) (xs @ ys) = takeWhile (\<lambda>y. y \<noteq> x) xs"
    by (intro takeWhile_append1[of x]) auto
  moreover have "length (takeWhile (\<lambda>y. y \<noteq> x) xs) < length xs"
    using a by (induction xs) auto
  ultimately show ?thesis by (simp add: index_of_def)
qed

lemma index_of_right: "x \<notin> set xs \<Longrightarrow> length xs \<le> index_of (xs @ ys) x"
proof -
  assume "x \<notin> set xs"
  then have "takeWhile (\<lambda>y. y \<noteq> x) (xs @ ys) = xs @ takeWhile (\<lambda>y. y \<noteq> x) ys"
    by (intro takeWhile_append2) auto
  then show ?thesis by (simp add: index_of_def)
qed

lemma take2_drop: "i + 1 < length xs \<Longrightarrow> take 2 (drop i xs) = [xs ! i, xs ! (i + 1)]"
proof -
  assume a: "i + 1 < length xs"
  then have "drop i xs = xs ! i # drop (Suc i) xs" by (simp add: Cons_nth_drop_Suc)
  moreover from a have "drop (Suc i) xs = xs ! (Suc i) # drop (Suc (Suc i)) xs"
    by (simp add: Cons_nth_drop_Suc)
  ultimately show ?thesis by (simp add: numeral_2_eq_2)
qed

lemma take3_drop:
  "i + 2 < length xs \<Longrightarrow> take 3 (drop i xs) = [xs ! i, xs ! (i + 1), xs ! (i + 2)]"
proof -
  assume a: "i + 2 < length xs"
  then have "drop i xs = xs ! i # drop (Suc i) xs" by (simp add: Cons_nth_drop_Suc)
  moreover from a have "drop (Suc i) xs = xs ! (Suc i) # drop (Suc (Suc i)) xs"
    by (simp add: Cons_nth_drop_Suc)
  moreover from a have "drop (Suc (Suc i)) xs = xs ! (Suc (Suc i)) # drop (Suc (Suc (Suc i))) xs"
    by (simp add: Cons_nth_drop_Suc)
  ultimately show ?thesis by (simp add: numeral_3_eq_3)
qed

lemma sub_after_trigrams:
  assumes "tri \<in> set T" and "sub \<notin> set T" and "sub \<in> set R"
  shows "sub \<in> set (first_seen (T @ R)) \<and>
         index_of (first_seen (T @ R)) tri < index_of (first_seen (T @ R)) sub"
proof -
  let ?c = "first_seen T @ filter (\<lambda>y. y \<notin> set T) (first_seen R)"
  have e: "first_seen (T @ R) = ?c" by (rule first_seen_append)
  from assms(1) have "tri \<in> set (first_seen T)" by (simp add: set_first_seen)
  then have 1: "index_of ?c tri < length (first_seen T)" by (rule index_of_left)
  from assms(2) have "sub \<notin> set (first_seen T)" by (simp add: set_first_seen)
  then have 2: "length (first_seen T) \<le> index_of ?c sub" by (rule index_of_right)
  from assms(3) have 3: "sub \<in> set (first_seen (T @ R))" by (simp add: set_first_seen)
  from 1 2 3 show ?thesis unfolding e by simp
qed

text \<open>
  C7. For every stop-word set and query, with \<open>ct\<close> the tokens left after stop-word
  filtering: the candidates are the 3-grams of \<open>ct\<close>, then its 2-grams, then its 1-grams,
  each joined by single spaces, without repetitions and each phrase where it is first seen;
  and for every three consecutive tokens of \<open>ct\<close>, their trigram is a candidate whose
  index is smaller than the index of each of its two bigrams and three unigrams, which are
  candidates too. The concrete instance is the query \<^verbatim>\<open>blood pressure medication\<close>.
\<close>

theorem extract_keywords_order:
  "let ct = content_tokens sw q; cands = extract_keywords sw q in
     cands = first_seen (ngrams 3 ct @ ngrams 2 ct @ ngrams 1 ct) \<and>
     distinct cands \<and>
     (\<forall>i. i + 2 < length ct \<longrightarrow>
        (let tri = join '' '' [ct ! i, ct ! (i + 1), ct ! (i + 2)] in
           tri \<in> set cands \<and>
           (\<forall>sub \<in> set [join '' '' [ct ! i, ct ! (i + 1)], join '' '' [ct ! (i + 1), ct ! (i + 2)],
                          ct ! i, ct ! (i + 1), ct ! (i + 2)].
              sub \<in> set cands \<and> index_of cands tri < index_of cands sub)))"
proof -
  define ct where "ct = content_tokens sw q"
  define cands where "cands = extract_keywords sw q"
  define T where "T = ngrams 3 ct"
  define R where "R = ngrams 2 ct @ ngrams 1 ct"
  have c: "cands = first_seen (T @ R)"
    by (simp only: cands_def T_def R_def ct_def extract_keywords_first_seen)
  have d: "distinct cands" unfolding c by (rule distinct_first_seen)
  have nosp: "\<forall>t \<in> set ct. CHR '' '' \<notin> set t"
    using content_tokens_tokens[of _ sw q] unfolding ct_def by blast
  have notT: "p \<notin> set T" if "p \<in> set R" for p
  proof
    assume "p \<in> set T"
    then have 2: "spaces p = 2" using ngram_spaces[of 3 p ct] nosp by (simp add: T_def)
    from that have "p \<in> set (ngrams 2 ct) \<or> p \<in> set (ngrams 1 ct)" by (simp add: R_def)
    then have "spaces p = 1 \<or> spaces p = 0"
      using ngram_spaces[of 2 p ct] ngram_spaces[of 1 p ct] nosp by auto
    with 2 show False by simp
  qed
  have main: "tri \<in> set cands \<and> (\<forall>sub \<in> set [b1, b2, ct ! i, ct ! (i + 1), ct ! (i + 2)].
                 sub \<in> set cands \<and> index_of cands tri < index_of cands sub)"
    if i: "i + 2 < length ct"
      and tri: "tri = join '' '' [ct ! i, ct ! (i + 1), ct ! (i + 2)]"
      and b1: "b1 = join '' '' [ct ! i, ct ! (i + 1)]"
      and b2: "b2 = join '' '' [ct ! (i + 1), ct ! (i + 2)]"
    for i tri b1 b2
  proof -
    have triT: "tri \<in> set T"
      using ngram_mem[of 3 i ct] i by (simp add: T_def tri take3_drop)
    have "b1 \<in> set (ngrams 2 ct)"
      using ngram_mem[of 2 i ct] i by (simp add: b1 take2_drop)
    then have r1: "b1 \<in> set R" by (simp add: R_def)
    have "b2 \<in> set (ngrams 2 ct)"
      using ngram_mem[of 2 "i + 1" ct] i take2_drop[of "i + 1" ct] by (simp add: b2)
    then have r2: "b2 \<in> set R" by (simp add: R_def)
    have u: "ct ! j \<in> set R" if "j < length ct" for j
    proof -
      from that have "ct ! j \<in> set ct" by (rule nth_mem)
      then have "ct ! j \<in> set (ngrams 1 ct)" by (simp only: ngrams_1)
      then show ?thesis by (simp only: R_def set_append Un_iff simp_thms)
    qed
    from i have r3: "ct ! i \<in> set R" and r4: "ct ! (i + 1) \<in> set R" and r5: "ct ! (i + 2) \<in> set R"
      by (simp_all add: u)
    have triC: "tri \<in> set cands" using triT by (simp add: c set_first_seen)
    have each: "sub \<in> set cands \<and> index_of cands tri < index_of cands sub" if "sub \<in> set R" for sub
      unfolding c using triT notT[OF that] that by (rule sub_after_trigrams)
    from triC each[OF r1] each[OF r2] each[OF r3] each[OF r4] each[OF r5]
    show ?thesis by simp
  qed
  show ?thesis
    unfolding Let_def ct_def[symmetric] cands_def[symmetric]
    using c d main unfolding T_def R_def by blast
qed

lemma content_tokens_blood:
  "content_tokens (set DEFAULT_STOP_WORDS) ''blood pressure medication''
     = [''blood'', ''pressure'', ''medication'']"
proof -
  have t: "tokenize ''blood pressure medication'' = [''blood'', ''pressure'', ''medication'']"
    by (simp add: tokenize_def split_def lower_def clean_def lower_char_def upper_chars_def
        lower_chars_def ascii_alnum_def is_space_def)
  show ?thesis by (simp add: content_tokens_def t DEFAULT_STOP_WORDS_def)
qed

lemma extract_keywords_blood:
  "extract_keywords (set DEFAULT_STOP_WORDS) ''blood pressure medication''
     = [''blood pressure medication'', ''blood pressure'', ''pressure medication'',
        ''blood'', ''pressure'', ''medication'']"
  by (simp add: extract_keywords_first_seen content_tokens_blood ngrams_def upt_rec)

theorem extract_keywords_order_witness:
  "extract_keywords (set DEFAULT_STOP_WORDS) ''blood pressure medication''
     = [''blood pressure medication'', ''blood pressure'', ''pressure medication'',
        ''blood'', ''pressure'', ''medication''] \<and>
   index_of (extract_keywords (set DEFAULT_STOP_WORDS) ''blood pressure medication'')
       ''blood pressure medication''
     < index_of (extract_keywords (set DEFAULT_STOP_WORDS) ''blood pressure medication'')
         ''blood pressure'' \<and>
   index_of (extract_keywords (set DEFAULT_STOP_WORDS) ''blood pressure medication'')
       ''blood pressure medication''
     < index_of (extract_keywords (set DEFAULT_STOP_WORDS) ''blood pressure medication'')
         ''blood''"
proof -
  let ?sw = "set DEFAULT_STOP_WORDS" and ?q = "''blood pressure medication''"
  let ?c = "extract_keywords ?sw ?q"
  from extract_keywords_order[of ?sw ?q]
  have "\<forall>i. i + 2 < length [''blood'', ''pressure'', ''medication''] \<longrightarrow>
          (\<forall>sub \<in> set [join '' '' [[''blood'', ''pressure'', ''medication''] ! i,
                                 [''blood'', ''pressure'', ''medication''] ! (i + 1)],
                         join '' '' [[''blood'', ''pressure'', ''medication''] ! (i + 1),
                                 [''blood'', ''pressure'', ''medication''] ! (i + 2)],
                         [''blood'', ''pressure'', ''medication''] ! i,
                         [''blood'', ''pressure'', ''medication''] ! (i + 1),
                         [''blood'', ''pressure'', ''medication''] ! (i + 2)].
             index_of ?c (join '' '' [[''blood'', ''pressure'', ''medication''] ! i,
                                      [''blood'', ''pressure'', ''medication''] ! (i + 1),
                                      [''blood'', ''pressure'', ''medication''] ! (i + 2)])
               < index_of ?c sub)"
    unfolding Let_def content_tokens_blood by blast
  then have "\<forall>sub \<in> set [join '' '' [''blood'', ''pressure''], join '' '' [''pressure'', ''medication''],
                         ''blood'', ''pressure'', ''medication''].
             index_of ?c (join '' '' [''blood'', ''pressure'', ''medication'']) < index_of ?c sub"
    by (drule_tac x = 0 in spec) simp
  then have "index_of ?c ''blood pressure medication'' < index_of ?c ''blood pressure'' \<and>
             index_of ?c ''blood pressure medication'' < index_of ?c ''blood''"
    by simp
  with extract_keywords_blood show ?thesis by (simp only: simp_thms)
qed

section \<open>Properties of the fuzzy stage\<close>

lemma score_rows_eq:
  "score_rows ratio th kw rows =
     map (\<lambda>r. (similarity ratio kw r, r)) (filter (qualifies ratio th kw) rows)"
proof (induction rows)
  case Nil
  show ?case by simp
next
  case (Cons r rows)
  show ?case
    by (cases "candidate_name r") (simp_all add: Cons similarity_def qualifies_def)
qed

lemma sort_descending_set: "set (sort_descending xs) = set xs"
  by (simp add: sort_descending_def)

lemma sort_descending_length: "length (sort_descending xs) = length xs"
  by (simp add: sort_descending_def)

lemma sort_descending_sorted: "sorted_wrt (\<lambda>a b. a \<ge> b) (map fst (sort_descending xs))"
proof -
  have "sorted (map fst (sort_key fst (rev xs)))" by (rule sorted_sort_key)
  then have "sorted_wrt (\<lambda>a b. a \<ge> b) (rev (map fst (sort_key fst (rev xs))))"
    by (simp only: sorted_wrt_rev)
  then show ?thesis by (simp add: sort_descending_def rev_map)
qed

lemma take_drop_sorted:
  assumes "sorted_wrt (\<lambda>a b. (a::real) \<ge> b) (map f xs)"
    and "t \<in> set (take n xs)" and "d \<in> set (drop n xs)"
  shows "f d \<le> f t"
proof -
  have "map f xs = map f (take n xs) @ map f (drop n xs)"
    by (simp only: map_append[symmetric] append_take_drop_id)
  with assms(1) have "sorted_wrt (\<lambda>a b. a \<ge> b) (map f (take n xs) @ map f (drop n xs))"
    by (simp only:)
  then have "\<forall>a \<in> set (map f (take n xs)). \<forall>b \<in> set (map f (drop n xs)). a \<ge> b"
    by (simp only: sorted_wrt_append) blast
  with assms(2,3) show ?thesis by auto
qed

lemma top_rows_properties:
  "length (top_rows ratio th kw rows) = min 5 (length (filter (qualifies ratio th kw) rows)) \<and>
   set (top_rows ratio th kw rows) \<subseteq> set (filter (qualifies ratio th kw) rows) \<and>
   sorted_wrt (\<lambda>a b. a \<ge> b) (map (similarity ratio kw) (top_rows ratio th kw rows)) \<and>
   (\<forall>r \<in> set (filter (qualifies ratio th kw) rows). r \<notin> set (top_rows ratio th kw rows) \<longrightarrow>
      (\<forall>t \<in> set (top_rows ratio th kw rows). similarity ratio kw r \<le> similarity ratio kw t))"
proof -
  define scored where "scored = score_rows ratio th kw rows"
  define srt where "srt = sort_descending scored"
  have sc: "scored = map (\<lambda>r. (similarity ratio kw r, r)) (filter (qualifies ratio th kw) rows)"
    unfolding scored_def by (rule score_rows_eq)
  have tr: "top_rows ratio th kw rows = map snd (take 5 srt)"
    by (simp add: top_rows_def srt_def scored_def)
  have pairs: "fst p = similarity ratio kw (snd p) \<and> snd p \<in> set (filter (qualifies ratio th kw) rows)"
    if "p \<in> set srt" for p
  proof -
    from that have "p \<in> set scored" by (simp add: srt_def sort_descending_set)
    then show ?thesis unfolding sc by auto
  qed
  have 1: "length (top_rows ratio th kw rows) = min 5 (length (filter (qualifies ratio th kw) rows))"
    by (simp add: tr srt_def sort_descending_length sc min.commute)
  have 2: "set (top_rows ratio th kw rows) \<subseteq> set (filter (qualifies ratio th kw) rows)"
  proof
    fix r assume "r \<in> set (top_rows ratio th kw rows)"
    then obtain p where p: "p \<in> set (take 5 srt)" and r: "r = snd p" by (auto simp: tr)
    from p have "p \<in> set srt" by (rule in_set_takeD)
    from pairs[OF this] r show "r \<in> set (filter (qualifies ratio th kw) rows)" by simp
  qed
  have m: "map (similarity ratio kw) (top_rows ratio th kw rows) = map fst (take 5 srt)"
    unfolding tr map_map
  proof (rule map_cong[OF refl])
    fix p assume "p \<in> set (take 5 srt)"
    then have "p \<in> set srt" by (rule in_set_takeD)
    from pairs[OF this] show "(similarity ratio kw \<circ> snd) p = fst p" by simp
  qed
  have s: "sorted_wrt (\<lambda>a b. a \<ge> b) (map fst srt)"
    unfolding srt_def by (rule sort_descending_sorted)
  then have "sorted_wrt (\<lambda>a b. a \<ge> b) (take 5 (map fst srt))" by (rule sorted_wrt_take)
  then have 3: "sorted_wrt (\<lambda>a b. a \<ge> b) (map (similarity ratio kw) (top_rows ratio th kw rows))"
    by (simp only: m take_map)
  have 4: "similarity ratio kw r \<le> similarity ratio kw t"
    if r: "r \<in> set (filter (qualifies ratio th kw) rows)"
      and nr: "r \<notin> set (top_rows ratio th kw rows)"
      and t: "t \<in> set (top_rows ratio th kw rows)" for r t
  proof -
    from r have "(similarity ratio kw r, r) \<in> set scored" unfolding sc by auto
    then have a: "(similarity ratio kw r, r) \<in> set srt" by (simp add: srt_def sort_descending_set)
    from nr have "(similarity ratio kw r, r) \<notin> set (take 5 srt)" by (force simp: tr)
    with a have d: "(similarity ratio kw r, r) \<in> set (drop 5 srt)"
      by (metis Un_iff append_take_drop_id set_append)
    from t obtain p where p: "p \<in> set (take 5 srt)" and tp: "t = snd p" by (auto simp: tr)
    from p have "p \<in> set srt" by (rule in_set_takeD)
    from pairs[OF this] tp have fp: "fst p = similarity ratio kw t" by simp
    from take_drop_sorted[OF s p d] fp show ?thesis by simp
  qed
  from 1 2 3 4 show ?thesis by blast
qed

lemma exact_match_snd:
  "snd (exact_match x kw) =
     x\<lparr>lookup_connector := (lookup_connector x)\<lparr>issued := issued (lookup_connector x) @
        [\<lparr>lookup_cypher = ExactMatch (build_label_filter x) (search_properties x),
          lookup_params = [(''keyword'', Keyword (lower kw))]\<rparr>]\<rparr>\<rparr>"
  by (simp add: exact_match_def lookup_def execute_query_def split: sum.splits)

lemma partial_match_snd:
  "snd (partial_match x kw) =
     x\<lparr>lookup_connector := (lookup_connector x)\<lparr>issued := issued (lookup_connector x) @
        [\<lparr>lookup_cypher = PartialMatch (build_label_filter x) (search_properties x),
          lookup_params = [(''keyword'', Keyword (lower kw))]\<rparr>]\<rparr>\<rparr>"
  by (simp add: partial_match_def lookup_def execute_query_def split: sum.splits)

lemma exact_match_effect:
  "\<exists>q. \<not> is_fuzzy_query q \<and>
       snd (exact_match x kw) =
         x\<lparr>lookup_connector := (lookup_connector x)\<lparr>issued := issued (lookup_connector x) @ [q]\<rparr>\<rparr>"
proof -
  have "\<not> is_fuzzy_query \<lparr>lookup_cypher = ExactMatch (build_label_filter x) (search_properties x),
          lookup_params = [(''keyword'', Keyword (lower kw))]\<rparr>"
    by (simp add: is_fuzzy_query_def)
  with exact_match_snd[of x kw] show ?thesis by blast
qed

lemma partial_match_effect:
  "\<exists>q. \<not> is_fuzzy_query q \<and>
       snd (partial_match x kw) =
         x\<lparr>lookup_connector := (lookup_connector x)\<lparr>issued := issued (lookup_connector x) @ [q]\<rparr>\<rparr>"
proof -
  have "\<not> is_fuzzy_query \<lparr>lookup_cypher = PartialMatch (build_label_filter x) (search_properties x),
          lookup_params = [(''keyword'', Keyword (lower kw))]\<rparr>"
    by (simp add: is_fuzzy_query_def)
  with partial_match_snd[of x kw] show ?thesis by blast
qed

lemma find_in_graph_gate:
  assumes "\<not> (fuzzy_available x \<and> 3 < length kw)"
  shows "\<not> list_ex is_fuzzy_query (queries_since x (snd (find_in_graph x kw)))"
proof -
  obtain q1 where q1: "\<not> is_fuzzy_query q1"
    and e: "snd (exact_match x kw) =
         x\<lparr>lookup_connector := (lookup_connector x)\<lparr>issued := issued (lookup_connector x) @ [q1]\<rparr>\<rparr>"
    using exact_match_effect[of x kw] by blast
  define x1 where "x1 = snd (exact_match x kw)"
  obtain q2 where q2: "\<not> is_fuzzy_query q2"
    and p: "snd (partial_match x1 kw) =
         x1\<lparr>lookup_connector := (lookup_connector x1)\<lparr>issued := issued (lookup_connector x1) @ [q2]\<rparr>\<rparr>"
    using partial_match_effect[of x1 kw] by blast
  have "fuzzy_available x1 = fuzzy_available x"
    by (simp add: x1_def e)
  then have fa: "fuzzy_available (snd (partial_match x1 kw)) = fuzzy_available x"
    by (simp add: p)
  have "snd (find_in_graph x kw) = x1 \<or> snd (find_in_graph x kw) = snd (partial_match x1 kw)"
    using assms fa
    by (cases "exact_match x kw"; cases "partial_match x1 kw")
       (auto simp: find_in_graph_def x1_def split: sum.splits if_splits)
  then show ?thesis
  proof
    assume "snd (find_in_graph x kw) = x1"
    then show ?thesis using q1 by (simp add: queries_since_def x1_def e)
  next
    assume "snd (find_in_graph x kw) = snd (partial_match x1 kw)"
    then have "snd (find_in_graph x kw) =
        x1\<lparr>lookup_connector := (lookup_connector x1)\<lparr>issued := issued (lookup_connector x1) @ [q2]\<rparr>\<rparr>"
      by (simp only: p)
    then show ?thesis using q1 q2 by (simp add: queries_since_def x1_def e)
  qed
qed

lemma fuzzy_match_eq:
  assumes "levenshtein x = Some ratio" and "search_properties x = p # ps"
  shows "fuzzy_match x kw =
           (case respond (lookup_connector x) (fuzzy_query x p kw) of
              Inl e \<Rightarrow> Inl e
            | Inr rows \<Rightarrow>
                Inr (map row_to_node (top_rows ratio (fuzzy_threshold x) (lower kw) rows)),
            x\<lparr>lookup_connector :=
                 (lookup_connector x)\<lparr>issued := issued (lookup_connector x) @ [fuzzy_query x p kw]\<rparr>\<rparr>)"
  using assms
  by (simp add: fuzzy_match_def lookup_def execute_query_def fuzzy_query_def top_rows_def Let_def
      split: sum.splits)

lemma length_window:
  fixes L n :: int
  assumes "0 < L"
  shows "(max 1 (L - L div 2) \<le> n \<and> n \<le> L + L div 2) \<longleftrightarrow> (L \<le> 2 * n \<and> 2 * n \<le> 3 * L)"
  using assms by (auto simp: max_def)

lemma default_threshold:
  "fuzzy_threshold (new_extractor c props labels extra None lev) = 85 / 100"
  by (simp add: new_extractor_def)

text \<open>
  C9. (1) \<^verbatim>\<open>_find_in_graph\<close> sends a fuzzy query only when the similarity package is
  available and the keyword is longer than 3. (2) The threshold is 0.85 when none is
  configured. (3) With the package and a primary property, \<^verbatim>\<open>_fuzzy_match\<close> sends one
  query, whose length bounds \<^verbatim>\<open>min_len\<close> and \<^verbatim>\<open>max_len\<close> admit exactly the lengths within
  50 percent of the keyword's length, and returns the nodes of the top rows of the store's
  answer. (4) The top rows of any answer are at most 5, exactly 5 when at least 5 rows
  qualify; each of them has a name and a ratio at or above the threshold; they are in
  descending order of ratio; and no qualifying row left out has a higher ratio than a row
  kept. The concrete instance is the misspelt keyword \<^verbatim>\<open>asprin\<close> against a node named
  Aspirin.
\<close>

theorem fuzzy_stage:
  "(list_ex is_fuzzy_query (queries_since x (snd (find_in_graph x kw))) \<longrightarrow>
      fuzzy_available x \<and> 3 < length kw) \<and>
   fuzzy_threshold (new_extractor c props labels extra None lev) = 85 / 100 \<and>
   (levenshtein x = Some ratio \<and> search_properties x = p # ps \<longrightarrow>
      fuzzy_match x kw =
        (case respond (lookup_connector x) (fuzzy_query x p kw) of
           Inl e \<Rightarrow> Inl e
         | Inr rows \<Rightarrow>
             Inr (map row_to_node (top_rows ratio (fuzzy_threshold x) (lower kw) rows)),
         x\<lparr>lookup_connector :=
              (lookup_connector x)\<lparr>issued := issued (lookup_connector x) @ [fuzzy_query x p kw]\<rparr>\<rparr>)) \<and>
   lookup_params (fuzzy_query x p kw) =
     [(''min_len'', Length (max 1 (int (length kw) - int (length kw) div 2))),
      (''max_len'', Length (int (length kw) + int (length kw) div 2))] \<and>
   (3 < length kw \<longrightarrow>
      (\<forall>n. (max 1 (int (length kw) - int (length kw) div 2) \<le> n \<and>
            n \<le> int (length kw) + int (length kw) div 2)
           \<longleftrightarrow> (int (length kw) \<le> 2 * n \<and> 2 * n \<le> 3 * int (length kw)))) \<and>
   length (top_rows ratio th kwl rows) = min 5 (length (filter (qualifies ratio th kwl) rows)) \<and>
   set (top_rows ratio th kwl rows) \<subseteq> set (filter (qualifies ratio th kwl) rows) \<and>
   sorted_wrt (\<lambda>a b. a \<ge> b) (map (similarity ratio kwl) (top_rows ratio th kwl rows)) \<and>
   (\<forall>r \<in> set (filter (qualifies ratio th kwl) rows). r \<notin> set (top_rows ratio th kwl rows) \<longrightarrow>
      (\<forall>t \<in> set (top_rows ratio th kwl rows). similarity ratio kwl r \<le> similarity ratio kwl t))"
proof -
  have 1: "list_ex is_fuzzy_query (queries_since x (snd (find_in_graph x kw))) \<longrightarrow>
      fuzzy_available x \<and> 3 < length kw"
    using find_in_graph_gate[of x kw] by blast
  have 2: "fuzzy_threshold (new_extractor c props labels extra None lev) = 85 / 100"
    by (rule default_threshold)
  have 3: "levenshtein x = Some ratio \<and> search_properties x = p # ps \<longrightarrow>
      fuzzy_match x kw =
        (case respond (lookup_connector x) (fuzzy_query x p kw) of
           Inl e \<Rightarrow> Inl e
         | Inr rows \<Rightarrow>
             Inr (map row_to_node (top_rows ratio (fuzzy_threshold x) (lower kw) rows)),
         x\<lparr>lookup_connector :=
              (lookup_connector x)\<lparr>issued := issued (lookup_connector x) @ [fuzzy_query x p kw]\<rparr>\<rparr>)"
    using fuzzy_match_eq[of x ratio p ps kw] by blast
  have 4: "lookup_params (fuzzy_query x p kw) =
     [(''min_len'', Length (max 1 (int (length kw) - int (length kw) div 2))),
      (''max_len'', Length (int (length kw) + int (length kw) div 2))]"
    by (simp add: fuzzy_query_def)
  have 5: "3 < length kw \<longrightarrow>
      (\<forall>n. (max 1 (int (length kw) - int (length kw) div 2) \<le> n \<and>
            n \<le> int (length kw) + int (length kw) div 2)
           \<longleftrightarrow> (int (length kw) \<le> 2 * n \<and> 2 * n \<le> 3 * int (length kw)))"
  proof
    assume "3 < length kw"
    then have "0 < int (length kw)" by linarith
    then show "\<forall>n. (max 1 (int (length kw) - int (length kw) div 2) \<le> n \<and>
            n \<le> int (length kw) + int (length kw) div 2)
           \<longleftrightarrow> (int (length kw) \<le> 2 * n \<and> 2 * n \<le> 3 * int (length kw))"
      using length_window[of "int (length kw)"] by blast
  qed
  from 1 2 3 4 5 top_rows_properties[of ratio th kwl rows] show ?thesis by blast
qed

lemma demo_extractor_fields:
  "levenshtein demo_extractor = Some demo_ratio"
  "search_properties demo_extractor = [''name'']"
  "fuzzy_available demo_extractor"
  "fuzzy_threshold demo_extractor = 85 / 100"
  "lookup_connector demo_extractor = fuzzy_store"
  "node_labels demo_extractor = None"
  by (simp_all add: demo_extractor_def new_extractor_def)

lemma demo_top_rows:
  "top_rows demo_ratio (fuzzy_threshold demo_extractor) ''asprin'' [insulin_row, aspirin_row]
     = [aspirin_row]"
  by (simp add: top_rows_def sort_descending_def demo_ratio_def insulin_row_def aspirin_row_def
      demo_extractor_fields(4))

lemma demo_find_in_graph:
  "list_ex is_fuzzy_query
     (queries_since demo_extractor (snd (find_in_graph demo_extractor ''asprin'')))"
  by (simp add: find_in_graph_def exact_match_def partial_match_def fuzzy_match_def lookup_def
      execute_query_def demo_extractor_fields queries_since_def fuzzy_store_def is_fuzzy_query_def
      build_label_filter_def Let_def)

theorem fuzzy_stage_witness:
  "fuzzy_available demo_extractor \<and> 3 < length ''asprin'' \<and>
   fst (fuzzy_match demo_extractor ''asprin'') = Inr [row_to_node aspirin_row] \<and>
   queries_since demo_extractor (snd (fuzzy_match demo_extractor ''asprin'')) =
     [\<lparr>lookup_cypher = FuzzyCandidates [] ''name'',
       lookup_params = [(''min_len'', Length 3), (''max_len'', Length 9)]\<rparr>]"
proof -
  note t = fuzzy_stage[of demo_extractor "''asprin''" _ _ _ _ _ demo_ratio "''name''" "[]"]
  from t demo_find_in_graph
  have a: "fuzzy_available demo_extractor \<and> 3 < length ''asprin''" by blast
  have l: "lower ''asprin'' = ''asprin''" by (simp add: lower_def lower_char_def upper_chars_def lower_chars_def)
  have q: "fuzzy_query demo_extractor ''name'' ''asprin'' =
     \<lparr>lookup_cypher = FuzzyCandidates [] ''name'',
      lookup_params = [(''min_len'', Length 3), (''max_len'', Length 9)]\<rparr>"
    by (simp add: fuzzy_query_def build_label_filter_def demo_extractor_fields)
  from t demo_extractor_fields(1,2)
  have "fuzzy_match demo_extractor ''asprin'' =
        (case respond (lookup_connector demo_extractor) (fuzzy_query demo_extractor ''name'' ''asprin'') of
           Inl e \<Rightarrow> Inl e
         | Inr rows \<Rightarrow>
             Inr (map row_to_node (top_rows demo_ratio (fuzzy_threshold demo_extractor) (lower ''asprin'') rows)),
         demo_extractor\<lparr>lookup_connector :=
              (lookup_connector demo_extractor)\<lparr>issued := issued (lookup_connector demo_extractor)
                 @ [fuzzy_query demo_extractor ''name'' ''asprin'']\<rparr>\<rparr>)"
    by blast
  then have "fst (fuzzy_match demo_extractor ''asprin'') = Inr [row_to_node aspirin_row] \<and>
     queries_since demo_extractor (snd (fuzzy_match demo_extractor ''asprin'')) =
       [\<lparr>lookup_cypher = FuzzyCandidates [] ''name'',
         lookup_params = [(''min_len'', Length 3), (''max_len'', Length 9)]\<rparr>]"
    by (simp add: q l demo_extractor_fields(5) demo_top_rows queries_since_def fuzzy_store_def
        is_fuzzy_query_def)
  with a show ?thesis by blast
qed

end
